theory Spec2Isabelle
  imports Main
begin

section \<open>The CSV to ontology populator (csv\_to\_ontology.py)\<close>

subsection \<open>RDF terms, triples and the graph\<close>

text \<open>
  A calendar date, as \<^verbatim>\<open>datetime.date\<close> holds it.
\<close>

datatype date = Date (year: nat) (month: nat) (day: nat)

text \<open>
  The terms the program puts into the graph: \<^verbatim>\<open>URIRef\<close> (the full URI string),
  a plain \<^verbatim>\<open>Literal\<close> (its lexical form, no datatype) and the literal built by
  \<^verbatim>\<open>Literal(date_obj, datatype=XSD.date)\<close>.
\<close>

datatype node = URIRef string | Literal string | DateLiteral date

type_synonym triple = "node \<times> node \<times> node"

text \<open>
  An rdflib \<^verbatim>\<open>Graph\<close> is a set of triples. It is kept as a list without
  repetition: \<^verbatim>\<open>graph.add\<close> of a triple already present changes nothing.
\<close>

type_synonym rdf_graph = "triple list"

definition graph_add :: "triple \<Rightarrow> rdf_graph \<Rightarrow> rdf_graph" where
  "graph_add t g = (if t \<in> set g then g else t # g)"

text \<open>
  \<^verbatim>\<open>graph.triples((s, p, o))\<close>: the triples matching a pattern, where
  \<^verbatim>\<open>None\<close> matches anything; \<^verbatim>\<open>graph.subjects(p, o)\<close> reads the subjects
  of the triples with the given predicate and object.
\<close>

definition matches :: "node option \<times> node option \<times> node option \<Rightarrow> triple \<Rightarrow> bool" where
  "matches pat t =
     (case (pat, t) of ((ps, pp, po), (s, p, ob)) \<Rightarrow>
        (case ps of None \<Rightarrow> True | Some x \<Rightarrow> x = s) \<and>
        (case pp of None \<Rightarrow> True | Some x \<Rightarrow> x = p) \<and>
        (case po of None \<Rightarrow> True | Some x \<Rightarrow> x = ob))"

definition triples :: "rdf_graph \<Rightarrow> node option \<times> node option \<times> node option \<Rightarrow> triple list" where
  "triples g pat = filter (matches pat) g"

definition subjects :: "rdf_graph \<Rightarrow> node \<Rightarrow> node \<Rightarrow> node list" where
  "subjects g p ob = map fst (triples g (None, Some p, Some ob))"

subsection \<open>Vocabulary\<close>

definition SW :: "string \<Rightarrow> node" where
  "SW local = URIRef (''http://www.example.org/software-review#'' @ local)"

definition RDF_type :: node where
  "RDF_type = URIRef ''http://www.w3.org/1999/02/22-rdf-syntax-ns#type''"

definition RDFS_domain :: node where
  "RDFS_domain = URIRef ''http://www.w3.org/2000/01/rdf-schema#domain''"

definition RDFS_range :: node where
  "RDFS_range = URIRef ''http://www.w3.org/2000/01/rdf-schema#range''"

definition OWL_Class :: node where
  "OWL_Class = URIRef ''http://www.w3.org/2002/07/owl#Class''"

definition OWL_ObjectProperty :: node where
  "OWL_ObjectProperty = URIRef ''http://www.w3.org/2002/07/owl#ObjectProperty''"

definition OWL_DatatypeProperty :: node where
  "OWL_DatatypeProperty = URIRef ''http://www.w3.org/2002/07/owl#DatatypeProperty''"

definition XSD_string :: node where
  "XSD_string = URIRef ''http://www.w3.org/2001/XMLSchema#string''"

definition XSD_date :: node where
  "XSD_date = URIRef ''http://www.w3.org/2001/XMLSchema#date''"

subsection \<open>Python values read from the CSV file\<close>

text \<open>
  \<^verbatim>\<open>csv.DictReader\<close> yields one dictionary per data row, from column name to
  the cell: a string, or \<^verbatim>\<open>None\<close> for a column the row is too short to reach.
  A column that the header does not name is absent from every row.
\<close>

datatype cell = PyNone | PyStr string

type_synonym row = "string \<rightharpoonup> cell"

text \<open>\<^verbatim>\<open>str(x)\<close>, which is also how an f-string formats \<^verbatim>\<open>x\<close>.\<close>

fun py_str :: "cell \<Rightarrow> string" where
  "py_str PyNone = ''None''"
| "py_str (PyStr s) = s"

text \<open>Truth value of a cell: \<^verbatim>\<open>None\<close> and the empty string are false.\<close>

fun truthy :: "cell \<Rightarrow> bool" where
  "truthy PyNone = False"
| "truthy (PyStr s) = (s \<noteq> [])"

text \<open>
  \<^verbatim>\<open>Literal(x)\<close> for a cell: rdflib keeps \<^verbatim>\<open>str(x)\<close> as the lexical form
  and attaches no datatype to a string or to \<^verbatim>\<open>None\<close>.
\<close>

definition literal :: "cell \<Rightarrow> node" where
  "literal x = Literal (py_str x)"

text \<open>\<^verbatim>\<open>row.get(key)\<close> and \<^verbatim>\<open>row.get(key, default)\<close>.\<close>

definition row_get :: "row \<Rightarrow> string \<Rightarrow> cell \<Rightarrow> cell" where
  "row_get r k d = (case r k of None \<Rightarrow> d | Some v \<Rightarrow> v)"

text \<open>Decimal notation of a natural number, as \<^verbatim>\<open>str(n)\<close> prints it.\<close>

definition digit_char :: "nat \<Rightarrow> char" where
  "digit_char d = char_of (48 + d)"

fun str_nat :: "nat \<Rightarrow> string" where
  "str_nat n = (if n < 10 then [digit_char n] else str_nat (n div 10) @ [digit_char (n mod 10)])"

declare str_nat.simps [simp del]

subsection \<open>The populator and its exceptions\<close>

datatype py_error = KeyError string | TypeError

type_synonym reviewer_key = "cell \<times> cell \<times> cell \<times> cell"

record populator =
  graph :: rdf_graph
  reviewer_cache :: "(reviewer_key \<times> node) list"

text \<open>
  A statement of the row loop either returns a value or raises; in both cases the
  populator keeps every change made so far.
\<close>

type_synonym 'a action = "populator \<Rightarrow> (py_error + 'a) \<times> populator"

definition returnA :: "'a \<Rightarrow> 'a action" where
  "returnA x st = (Inr x, st)"

definition raiseA :: "py_error \<Rightarrow> 'a action" where
  "raiseA e st = (Inl e, st)"

definition bindA :: "'a action \<Rightarrow> ('a \<Rightarrow> 'b action) \<Rightarrow> 'b action" where
  "bindA m f st = (case m st of (Inl e, st') \<Rightarrow> (Inl e, st') | (Inr x, st') \<Rightarrow> f x st')"

text \<open>\<^verbatim>\<open>row[key]\<close>: raises \<^verbatim>\<open>KeyError\<close> when the key is absent.\<close>

definition getitem :: "row \<Rightarrow> string \<Rightarrow> cell action" where
  "getitem r k = (case r k of None \<Rightarrow> raiseA (KeyError k) | Some v \<Rightarrow> returnA v)"

text \<open>\<^verbatim>\<open>self.graph.add(t)\<close>.\<close>

definition add :: "triple \<Rightarrow> unit action" where
  "add t st = (Inr (), graph_update (graph_add t) st)"

text \<open>\<^verbatim>\<open>if c: self.graph.add(t)\<close>.\<close>

definition when_add :: "bool \<Rightarrow> triple \<Rightarrow> unit action" where
  "when_add c t = (if c then add t else returnA ())"

subsection \<open>\_initialize\_ontology and \_\_init\_\_\<close>

definition classes :: "node list" where
  "classes = [SW ''Software'', SW ''Review'', SW ''Reviewer'']"

definition obj_properties :: "(node \<times> node \<times> node) list" where
  "obj_properties =
    [(SW ''hasReview'', SW ''Software'', SW ''Review''),
     (SW ''madeBy'', SW ''Review'', SW ''Reviewer'')]"

definition dt_properties :: "(node \<times> node \<times> node) list" where
  "dt_properties =
    [(SW ''software_id'', SW ''Software'', XSD_string),
     (SW ''name'', SW ''Software'', XSD_string),
     (SW ''pagina'', SW ''Software'', XSD_string),
     (SW ''fonte'', SW ''Review'', XSD_string),
     (SW ''recomendacao'', SW ''Review'', XSD_string),
     (SW ''data_avaliacao'', SW ''Review'', XSD_date),
     (SW ''comentario'', SW ''Review'', XSD_string),
     (SW ''vantagem'', SW ''Review'', XSD_string),
     (SW ''desvantagem'', SW ''Review'', XSD_string),
     (SW ''sft_anterior'', SW ''Review'', XSD_string),
     (SW ''motivo_mudanca'', SW ''Review'', XSD_string),
     (SW ''setor'', SW ''Reviewer'', XSD_string),
     (SW ''porte'', SW ''Reviewer'', XSD_string),
     (SW ''frequencia'', SW ''Reviewer'', XSD_string),
     (SW ''frequencia_complementar'', SW ''Reviewer'', XSD_string)]"

definition declare_property :: "node \<Rightarrow> node \<times> node \<times> node \<Rightarrow> rdf_graph \<Rightarrow> rdf_graph" where
  "declare_property kind d g =
     (case d of (prop, domain', range') \<Rightarrow>
        graph_add (prop, RDFS_range, range')
          (graph_add (prop, RDFS_domain, domain')
             (graph_add (prop, RDF_type, kind) g)))"

definition initialize_ontology :: "rdf_graph \<Rightarrow> rdf_graph" where
  "initialize_ontology g =
     fold (declare_property OWL_DatatypeProperty) dt_properties
       (fold (declare_property OWL_ObjectProperty) obj_properties
          (fold (\<lambda>cls. graph_add (cls, RDF_type, OWL_Class)) classes g))"

definition init :: populator where
  "init = \<lparr>graph = initialize_ontology [], reviewer_cache = []\<rparr>"

subsection \<open>\_get\_or\_create\_reviewer and \_get\_or\_create\_software\<close>

definition get_or_create_reviewer :: "cell \<Rightarrow> cell \<Rightarrow> cell \<Rightarrow> cell \<Rightarrow> node action" where
  "get_or_create_reviewer setor porte frequencia frequencia_complementar st =
     (let reviewer_key = (setor, porte, frequencia, frequencia_complementar) in
      case map_of (reviewer_cache st) reviewer_key of
        Some uri \<Rightarrow> (Inr uri, st)
      | None \<Rightarrow>
          (let reviewer_id = ''reviewer_'' @ str_nat (length (reviewer_cache st) + 1);
               reviewer_uri = SW reviewer_id;
               g1 = graph_add (reviewer_uri, RDF_type, SW ''Reviewer'') (graph st);
               g2 = graph_add (reviewer_uri, SW ''setor'', literal setor) g1;
               g3 = graph_add (reviewer_uri, SW ''porte'', literal porte) g2;
               g4 = graph_add (reviewer_uri, SW ''frequencia'', literal frequencia) g3;
               g5 = graph_add (reviewer_uri, SW ''frequencia_complementar'',
                      literal frequencia_complementar) g4
           in (Inr reviewer_uri,
               st\<lparr>graph := g5,
                  reviewer_cache := reviewer_cache st @ [(reviewer_key, reviewer_uri)]\<rparr>)))"

definition get_or_create_software :: "cell \<Rightarrow> cell \<Rightarrow> cell \<Rightarrow> node action" where
  "get_or_create_software software_id name pagina st =
     (let software_uri = SW (''software_'' @ py_str software_id) in
      if (software_uri, RDF_type, SW ''Software'') \<notin> set (graph st) then
        (let g1 = graph_add (software_uri, RDF_type, SW ''Software'') (graph st);
             g2 = graph_add (software_uri, SW ''software_id'', literal software_id) g1;
             g3 = graph_add (software_uri, SW ''name'', literal name) g2;
             g4 = (if truthy pagina
                   then graph_add (software_uri, SW ''pagina'', literal pagina) g3 else g3)
         in (Inr software_uri, st\<lparr>graph := g4\<rparr>))
      else (Inr software_uri, st))"

subsection \<open>process\_csv\<close>

text \<open>
  The two things the row loop takes from outside the program:
  \<^verbatim>\<open>datetime.strptime(s, '%Y-%m-%d').date()\<close>, which returns a date or raises
  \<^verbatim>\<open>ValueError\<close> (here \<open>None\<close>), and \<^verbatim>\<open>datetime.now().date()\<close>, the date
  the clock shows while the row with the given number is processed.
\<close>

record env =
  strptime :: "string \<Rightarrow> date option"
  now :: "nat \<Rightarrow> date"

text \<open>
  Lines 119 to 122: \<^verbatim>\<open>strptime\<close> of \<^verbatim>\<open>None\<close> raises \<^verbatim>\<open>TypeError\<close>, which
  the inner handler does not catch; a \<^verbatim>\<open>ValueError\<close> is replaced by the current date.
\<close>

definition convert_date :: "env \<Rightarrow> nat \<Rightarrow> cell \<Rightarrow> date action" where
  "convert_date e row_num c =
     (case c of
        PyNone \<Rightarrow> raiseA TypeError
      | PyStr s \<Rightarrow> (case strptime e s of Some d \<Rightarrow> returnA d | None \<Rightarrow> returnA (now e row_num)))"

text \<open>
  The body of the \<^verbatim>\<open>try\<close> block for one row, statement by statement, in the
  three parts the source marks with its comments. Arguments are evaluated before the
  call, so a missing reviewer column raises after the software has been created, and
  a missing review column raises after the triples of the statements before it.
\<close>

definition process_software :: "row \<Rightarrow> node action" where
  "process_software r =
     bindA (getitem r ''software_id'') (\<lambda>software_id.
     bindA (getitem r ''software_id'') (\<lambda>software_id'.
     get_or_create_software software_id
       (row_get r ''name'' (PyStr (''Software '' @ py_str software_id')))
       (row_get r ''pagina'' PyNone)))"

definition process_reviewer :: "row \<Rightarrow> node action" where
  "process_reviewer r =
     bindA (getitem r ''setor'') (\<lambda>setor.
     bindA (getitem r ''porte'') (\<lambda>porte.
     bindA (getitem r ''frequencia'') (\<lambda>frequencia.
     bindA (getitem r ''frequencia_complementar'') (\<lambda>frequencia_complementar.
     get_or_create_reviewer setor porte frequencia frequencia_complementar))))"

definition process_review :: "env \<Rightarrow> nat \<Rightarrow> row \<Rightarrow> node \<Rightarrow> node \<Rightarrow> unit action" where
  "process_review e row_num r software_uri reviewer_uri =
     (let review_uri = SW (''review_'' @ str_nat row_num) in
     bindA (getitem r ''data_avaliacao'') (\<lambda>data_avaliacao.
     bindA (convert_date e row_num data_avaliacao) (\<lambda>date_obj.
     bindA (add (review_uri, RDF_type, SW ''Review'')) (\<lambda>_.
     bindA (getitem r ''fonte'') (\<lambda>fonte.
     bindA (add (review_uri, SW ''fonte'', literal fonte)) (\<lambda>_.
     bindA (getitem r ''recomendacao'') (\<lambda>recomendacao.
     bindA (add (review_uri, SW ''recomendacao'', literal recomendacao)) (\<lambda>_.
     bindA (add (review_uri, SW ''data_avaliacao'', DateLiteral date_obj)) (\<lambda>_.
     bindA (getitem r ''comentario'') (\<lambda>comentario.
     bindA (add (review_uri, SW ''comentario'', literal comentario)) (\<lambda>_.
     bindA (getitem r ''vantagem'') (\<lambda>vantagem.
     bindA (add (review_uri, SW ''vantagem'', literal vantagem)) (\<lambda>_.
     bindA (getitem r ''desvantagem'') (\<lambda>desvantagem.
     bindA (add (review_uri, SW ''desvantagem'', literal desvantagem)) (\<lambda>_.
     bindA (when_add (truthy (row_get r ''sft_anterior'' PyNone))
              (review_uri, SW ''sft_anterior'', literal (row_get r ''sft_anterior'' PyNone))) (\<lambda>_.
     bindA (when_add (truthy (row_get r ''motivo_mudanca'' PyNone))
              (review_uri, SW ''motivo_mudanca'', literal (row_get r ''motivo_mudanca'' PyNone))) (\<lambda>_.
     bindA (add (software_uri, SW ''hasReview'', review_uri)) (\<lambda>_.
     add (review_uri, SW ''madeBy'', reviewer_uri)))))))))))))))))))"

definition process_row :: "env \<Rightarrow> nat \<Rightarrow> row \<Rightarrow> unit action" where
  "process_row e row_num r =
     bindA (process_software r) (\<lambda>software_uri.
     bindA (process_reviewer r) (\<lambda>reviewer_uri.
     process_review e row_num r software_uri reviewer_uri))"

text \<open>
  The loop over \<^verbatim>\<open>enumerate(reader, start=1)\<close>. Both handlers print a message
  and continue with the next row; the messages are collected as pairs of the row number
  and the exception.
\<close>

type_synonym run = "populator \<times> (nat \<times> py_error) list"

fun process_rows :: "env \<Rightarrow> nat \<Rightarrow> row list \<Rightarrow> run \<Rightarrow> run" where
  "process_rows e row_num [] run = run"
| "process_rows e row_num (r # rs) (st, out) =
     (case process_row e row_num r st of
        (Inl err, st') \<Rightarrow> process_rows e (Suc row_num) rs (st', out @ [(row_num, err)])
      | (Inr _, st') \<Rightarrow> process_rows e (Suc row_num) rs (st', out))"

definition process_csv :: "env \<Rightarrow> row list \<Rightarrow> run" where
  "process_csv e rows = process_rows e 1 rows (init, [])"

subsection \<open>print\_statistics\<close>

text \<open>The three numbers printed: software instances, reviews, reviewers.\<close>

definition print_statistics :: "populator \<Rightarrow> nat \<times> nat \<times> nat" where
  "print_statistics st =
     (let software_count = length (subjects (graph st) RDF_type (SW ''Software''));
          review_count = length (subjects (graph st) RDF_type (SW ''Review''));
          reviewer_count = length (subjects (graph st) RDF_type (SW ''Reviewer''))
      in (software_count, review_count, reviewer_count))"

section \<open>Auxiliary definitions for the proofs\<close>

definition software_uri :: "cell \<Rightarrow> node" where
  "software_uri c = SW (''software_'' @ py_str c)"

definition reviewer_uri :: "nat \<Rightarrow> node" where
  "reviewer_uri k = SW (''reviewer_'' @ str_nat k)"

definition review_uri :: "nat \<Rightarrow> node" where
  "review_uri n = SW (''review_'' @ str_nat n)"

definition add_all :: "triple list \<Rightarrow> rdf_graph \<Rightarrow> rdf_graph" where
  "add_all ts g = fold graph_add ts g"

definition cell_of :: "row \<Rightarrow> string \<Rightarrow> cell" where
  "cell_of r k = row_get r k PyNone"

definition name_of :: "row \<Rightarrow> cell" where
  "name_of r = row_get r ''name'' (PyStr (''Software '' @ py_str (cell_of r ''software_id'')))"

definition software_triples :: "row \<Rightarrow> triple list" where
  "software_triples r =
     (let c = cell_of r ''software_id''; u = software_uri c in
      [(u, RDF_type, SW ''Software''),
       (u, SW ''software_id'', literal c),
       (u, SW ''name'', literal (name_of r))]
      @ (if truthy (cell_of r ''pagina'') then [(u, SW ''pagina'', literal (cell_of r ''pagina''))] else []))"

definition key_of :: "row \<Rightarrow> reviewer_key" where
  "key_of r = (cell_of r ''setor'', cell_of r ''porte'', cell_of r ''frequencia'',
               cell_of r ''frequencia_complementar'')"

definition reviewer_for :: "populator \<Rightarrow> reviewer_key \<Rightarrow> node" where
  "reviewer_for st k =
     (case map_of (reviewer_cache st) k of
        Some u \<Rightarrow> u
      | None \<Rightarrow> reviewer_uri (length (reviewer_cache st) + 1))"

definition reviewer_triples :: "node \<Rightarrow> reviewer_key \<Rightarrow> triple list" where
  "reviewer_triples u k =
     (case k of (setor, porte, frequencia, frequencia_complementar) \<Rightarrow>
        [(u, RDF_type, SW ''Reviewer''),
         (u, SW ''setor'', literal setor),
         (u, SW ''porte'', literal porte),
         (u, SW ''frequencia'', literal frequencia),
         (u, SW ''frequencia_complementar'', literal frequencia_complementar)])"

definition date_of :: "env \<Rightarrow> nat \<Rightarrow> row \<Rightarrow> date" where
  "date_of e n r =
     (case cell_of r ''data_avaliacao'' of
        PyNone \<Rightarrow> now e n
      | PyStr s \<Rightarrow> (case strptime e s of Some d \<Rightarrow> d | None \<Rightarrow> now e n))"

definition review_attrs :: "env \<Rightarrow> nat \<Rightarrow> row \<Rightarrow> triple list" where
  "review_attrs e n r =
     [(review_uri n, RDF_type, SW ''Review''),
      (review_uri n, SW ''fonte'', literal (cell_of r ''fonte'')),
      (review_uri n, SW ''recomendacao'', literal (cell_of r ''recomendacao'')),
      (review_uri n, SW ''data_avaliacao'', DateLiteral (date_of e n r)),
      (review_uri n, SW ''comentario'', literal (cell_of r ''comentario'')),
      (review_uri n, SW ''vantagem'', literal (cell_of r ''vantagem'')),
      (review_uri n, SW ''desvantagem'', literal (cell_of r ''desvantagem''))]
     @ (if truthy (cell_of r ''sft_anterior'')
        then [(review_uri n, SW ''sft_anterior'', literal (cell_of r ''sft_anterior''))] else [])
     @ (if truthy (cell_of r ''motivo_mudanca'')
        then [(review_uri n, SW ''motivo_mudanca'', literal (cell_of r ''motivo_mudanca''))] else [])"

definition date_ok :: "row \<Rightarrow> bool" where
  "date_ok r = (case r ''data_avaliacao'' of Some (PyStr s) \<Rightarrow> True | _ \<Rightarrow> False)"

definition review_ok :: "row \<Rightarrow> bool" where
  "review_ok r \<longleftrightarrow>
     date_ok r \<and>
     list_all (\<lambda>k. r k \<noteq> None)
       [''fonte'', ''recomendacao'', ''comentario'', ''vantagem'', ''desvantagem'']"

definition reviewer_ok :: "row \<Rightarrow> bool" where
  "reviewer_ok r \<longleftrightarrow>
     list_all (\<lambda>k. r k \<noteq> None) [''setor'', ''porte'', ''frequencia'', ''frequencia_complementar'']"

definition reaches_review :: "row \<Rightarrow> bool" where
  "reaches_review r \<longleftrightarrow> r ''software_id'' \<noteq> None \<and> reviewer_ok r \<and> date_ok r"

definition row_ok :: "row \<Rightarrow> bool" where
  "row_ok r \<longleftrightarrow> r ''software_id'' \<noteq> None \<and> reviewer_ok r \<and> review_ok r"

definition software_part :: "row \<Rightarrow> populator \<Rightarrow> triple list" where
  "software_part r st =
     (if (software_uri (cell_of r ''software_id''), RDF_type, SW ''Software'') \<in> set (graph st)
      then [] else software_triples r)"

definition reviewer_part :: "row \<Rightarrow> populator \<Rightarrow> triple list" where
  "reviewer_part r st =
     (case map_of (reviewer_cache st) (key_of r) of
        Some u \<Rightarrow> []
      | None \<Rightarrow> reviewer_triples (reviewer_for st (key_of r)) (key_of r))"

definition links :: "nat \<Rightarrow> row \<Rightarrow> populator \<Rightarrow> triple list" where
  "links n r st =
     [(software_uri (cell_of r ''software_id''), SW ''hasReview'', review_uri n),
      (review_uri n, SW ''madeBy'', reviewer_for st (key_of r))]"

definition row_triples :: "env \<Rightarrow> nat \<Rightarrow> row \<Rightarrow> populator \<Rightarrow> triple list" where
  "row_triples e n r st =
     software_part r st @ reviewer_part r st @ review_attrs e n r @ links n r st"

definition cache_after :: "row \<Rightarrow> populator \<Rightarrow> (reviewer_key \<times> node) list" where
  "cache_after r st =
     (if r ''software_id'' \<noteq> None \<and> reviewer_ok r \<and> map_of (reviewer_cache st) (key_of r) = None
      then reviewer_cache st @ [(key_of r, reviewer_for st (key_of r))]
      else reviewer_cache st)"


definition digit_val :: "char \<Rightarrow> nat" where
  "digit_val c = of_char c - 48"

definition nat_of_str :: "string \<Rightarrow> nat" where
  "nat_of_str s = foldl (\<lambda>a c. 10 * a + digit_val c) 0 s"

definition about :: "nat \<Rightarrow> triple \<Rightarrow> bool" where
  "about n t \<longleftrightarrow>
     fst t = review_uri n \<or> (fst (snd t) = SW ''hasReview'' \<and> snd (snd t) = review_uri n)"

definition software_attr :: "node \<Rightarrow> triple \<Rightarrow> bool" where
  "software_attr u t \<longleftrightarrow>
     fst t = u \<and>
     (fst (snd t) = SW ''software_id'' \<or> fst (snd t) = SW ''name'' \<or> fst (snd t) = SW ''pagina'' \<or>
      (fst (snd t) = RDF_type \<and> snd (snd t) = SW ''Software''))"

definition is_schema_triple :: "triple \<Rightarrow> bool" where
  "is_schema_triple t \<longleftrightarrow>
     fst (snd t) = RDFS_domain \<or> fst (snd t) = RDFS_range \<or>
     (fst (snd t) = RDF_type \<and>
      (snd (snd t) = OWL_Class \<or> snd (snd t) = OWL_ObjectProperty \<or>
       snd (snd t) = OWL_DatatypeProperty))"

definition reviewer_attr :: "triple \<Rightarrow> bool" where
  "reviewer_attr t \<longleftrightarrow>
     fst (snd t) = SW ''setor'' \<or> fst (snd t) = SW ''porte'' \<or> fst (snd t) = SW ''frequencia'' \<or>
     fst (snd t) = SW ''frequencia_complementar'' \<or>
     (fst (snd t) = RDF_type \<and> snd (snd t) = SW ''Reviewer'')"

definition review_attr :: "triple \<Rightarrow> bool" where
  "review_attr t \<longleftrightarrow>
     fst (snd t) = SW ''fonte'' \<or> fst (snd t) = SW ''recomendacao'' \<or>
     fst (snd t) = SW ''data_avaliacao'' \<or> fst (snd t) = SW ''comentario'' \<or>
     fst (snd t) = SW ''vantagem'' \<or> fst (snd t) = SW ''desvantagem'' \<or>
     fst (snd t) = SW ''sft_anterior'' \<or> fst (snd t) = SW ''motivo_mudanca'' \<or>
     (fst (snd t) = RDF_type \<and> snd (snd t) = SW ''Review'')"

definition declared :: "node \<Rightarrow> node \<times> node \<times> node \<Rightarrow> triple list" where
  "declared kind d =
     (case d of (prop, domain', range') \<Rightarrow>
        [(prop, RDF_type, kind), (prop, RDFS_domain, domain'), (prop, RDFS_range, range')])"

definition schema_triples :: "triple list" where
  "schema_triples =
     map (\<lambda>cls. (cls, RDF_type, OWL_Class)) classes
     @ concat (map (declared OWL_ObjectProperty) obj_properties)
     @ concat (map (declared OWL_DatatypeProperty) dt_properties)"

fun run_rows :: "env \<Rightarrow> nat \<Rightarrow> row list \<Rightarrow> populator \<Rightarrow> populator" where
  "run_rows e n [] st = st"
| "run_rows e n (r # rs) st = run_rows e (Suc n) rs (snd (process_row e n r st))"

fun run_log :: "nat \<Rightarrow> row list \<Rightarrow> nat list" where
  "run_log n [] = []"
| "run_log n (r # rs) = (if row_ok r then [] else [n]) @ run_log (Suc n) rs"

definition fresh :: "nat \<Rightarrow> populator \<Rightarrow> bool" where
  "fresh m st \<longleftrightarrow> (\<forall>t\<in>set (graph st). \<forall>k\<ge>m. \<not> about k t)"

definition typed_reviews :: "nat \<Rightarrow> populator \<Rightarrow> bool" where
  "typed_reviews m st \<longleftrightarrow>
     (\<forall>t\<in>set (graph st). fst (snd t) = RDF_type \<and> snd (snd t) = SW ''Review'' \<longrightarrow>
        (\<exists>k. 1 \<le> k \<and> k < m \<and> fst t = review_uri k))"

definition is_digit :: "char \<Rightarrow> bool" where
  "is_digit c \<longleftrightarrow> c \<in> set ''0123456789''"

definition leap_year :: "nat \<Rightarrow> bool" where
  "leap_year y \<longleftrightarrow> y mod 4 = 0 \<and> (y mod 100 \<noteq> 0 \<or> y mod 400 = 0)"

definition days_in_month :: "nat \<Rightarrow> nat \<Rightarrow> nat" where
  "days_in_month y m =
     (if m = 2 then (if leap_year y then 29 else 28)
      else if m = 4 \<or> m = 6 \<or> m = 9 \<or> m = 11 then 30 else 31)"

fun month_field :: "string \<Rightarrow> nat option" where
  "month_field [a] = (if is_digit a \<and> a \<noteq> CHR ''0'' then Some (digit_val a) else None)"
| "month_field [a, b] =
     (if a = CHR ''1'' \<and> b \<in> set ''012'' then Some (10 + digit_val b)
      else if a = CHR ''0'' \<and> is_digit b \<and> b \<noteq> CHR ''0'' then Some (digit_val b)
      else None)"
| "month_field _ = None"

fun day_field :: "string \<Rightarrow> nat option" where
  "day_field [a] = (if is_digit a \<and> a \<noteq> CHR ''0'' then Some (digit_val a) else None)"
| "day_field [a, b] =
     (if a = CHR ''3'' \<and> b \<in> set ''01'' then Some (30 + digit_val b)
      else if a \<in> set ''12'' \<and> is_digit b then Some (10 * digit_val a + digit_val b)
      else if a \<in> set ''0 '' \<and> is_digit b \<and> b \<noteq> CHR ''0'' then Some (digit_val b)
      else None)"
| "day_field _ = None"

definition strptime_Ymd :: "string \<Rightarrow> date option" where
  "strptime_Ymd s =
     (case s of
        y1 # y2 # y3 # y4 # sep # rest \<Rightarrow>
          if is_digit y1 \<and> is_digit y2 \<and> is_digit y3 \<and> is_digit y4 \<and> sep = CHR ''-'' then
            (case dropWhile (\<lambda>c. c \<noteq> CHR ''-'') rest of
               [] \<Rightarrow> None
             | _ # d_str \<Rightarrow>
                 (case (month_field (takeWhile (\<lambda>c. c \<noteq> CHR ''-'') rest), day_field d_str) of
                    (Some m, Some d) \<Rightarrow>
                      (let y = 1000 * digit_val y1 + 100 * digit_val y2 + 10 * digit_val y3
                                 + digit_val y4
                       in if 1 \<le> y \<and> d \<le> days_in_month y m then Some (Date y m d) else None)
                  | _ \<Rightarrow> None))
          else None
      | _ \<Rightarrow> None)"

definition clock :: "date \<Rightarrow> env" where
  "clock today = \<lparr>strptime = strptime_Ymd, now = (\<lambda>_. today)\<rparr>"

fun csv_row :: "(string \<times> string) list \<Rightarrow> row" where
  "csv_row [] k = None"
| "csv_row ((k', v) # kvs) k = (if k = k' then Some (PyStr v) else csv_row kvs k)"

definition full_row :: "string \<Rightarrow> string \<Rightarrow> row" where
  "full_row sid d = csv_row
     [(''software_id'', sid), (''name'', ''Tool''), (''pagina'', ''''),
      (''setor'', ''TI''), (''porte'', ''grande''), (''frequencia'', ''diaria''),
      (''frequencia_complementar'', ''''), (''fonte'', ''capterra''),
      (''recomendacao'', ''sim''), (''data_avaliacao'', d), (''comentario'', ''bom''),
      (''vantagem'', ''rapido''), (''desvantagem'', ''caro'')]"

definition row_without_fonte :: row where
  "row_without_fonte = csv_row
     [(''software_id'', ''7''), (''name'', ''Tool''),
      (''setor'', ''TI''), (''porte'', ''grande''), (''frequencia'', ''diaria''),
      (''frequencia_complementar'', ''''),
      (''recomendacao'', ''sim''), (''data_avaliacao'', ''2024-01-15''), (''comentario'', ''bom''),
      (''vantagem'', ''rapido''), (''desvantagem'', ''caro'')]"

definition row_without_software_id :: row where
  "row_without_software_id = csv_row
     [(''name'', ''Tool''), (''setor'', ''TI''), (''porte'', ''grande''),
      (''frequencia'', ''diaria''), (''frequencia_complementar'', ''''),
      (''fonte'', ''capterra''), (''recomendacao'', ''sim''),
      (''data_avaliacao'', ''2024-01-15''), (''comentario'', ''bom''),
      (''vantagem'', ''rapido''), (''desvantagem'', ''caro'')]"

definition invalid_date_row :: row where
  "invalid_date_row = full_row ''7'' ''2024-13-40''"

definition software_row :: "string \<Rightarrow> string \<Rightarrow> string \<Rightarrow> row" where
  "software_row sid nm pg = csv_row
     [(''software_id'', sid), (''name'', nm), (''pagina'', pg),
      (''setor'', ''TI''), (''porte'', ''grande''), (''frequencia'', ''diaria''),
      (''frequencia_complementar'', ''''), (''fonte'', ''capterra''),
      (''recomendacao'', ''sim''), (''data_avaliacao'', ''2024-01-15''), (''comentario'', ''bom''),
      (''vantagem'', ''rapido''), (''desvantagem'', ''caro'')]"

definition id_triples :: "populator \<Rightarrow> bool" where
  "id_triples s \<longleftrightarrow>
     (\<forall>t\<in>set (graph s). fst (snd t) = SW ''software_id'' \<longrightarrow>
        (\<exists>d. t = (software_uri d, SW ''software_id'', literal d)))"

definition cache_typed :: "populator \<Rightarrow> bool" where
  "cache_typed s \<longleftrightarrow>
     (\<forall>k u. map_of (reviewer_cache s) k = Some u \<longrightarrow> (u, RDF_type, SW ''Reviewer'') \<in> set (graph s))"

section \<open>Proofs\<close>

lemma graph_update_id: "graph_update (\<lambda>x. x) st = st"
  by (cases st) simp

lemma set_graph_add [simp]: "set (graph_add t g) = insert t (set g)"
  by (auto simp: graph_add_def)

lemma distinct_graph_add [simp]: "distinct g \<Longrightarrow> distinct (graph_add t g)"
  by (simp add: graph_add_def)

lemma add_all_Nil [simp]: "add_all [] g = g"
  by (simp add: add_all_def)

lemma add_all_Cons [simp]: "add_all (t # ts) g = add_all ts (graph_add t g)"
  by (simp add: add_all_def)

lemma add_all_append: "add_all (xs @ ys) g = add_all ys (add_all xs g)"
  by (simp add: add_all_def)

lemma set_add_all: "set (add_all ts g) = set ts \<union> set g"
  by (induction ts arbitrary: g) auto

lemma distinct_add_all: "distinct g \<Longrightarrow> distinct (add_all ts g)"
  by (induction ts arbitrary: g) auto

lemma filter_add_all: "\<forall>t\<in>set ts. \<not> P t \<Longrightarrow> filter P (add_all ts g) = filter P g"
  by (induction ts arbitrary: g) (auto simp: graph_add_def)


lemma bindA_getitem:
  "bindA (getitem r k) f st = (case r k of None \<Rightarrow> (Inl (KeyError k), st) | Some v \<Rightarrow> f v st)"
  by (simp add: bindA_def getitem_def raiseA_def returnA_def split: option.split)

lemma bindA_add: "bindA (add t) f st = f () (graph_update (graph_add t) st)"
  by (simp add: bindA_def add_def)

lemma add_all_single: "add_all [t] = graph_add t"
  by (rule ext) simp

lemma graph_update_add_all_Nil [simp]: "graph_update (add_all []) st = st"
  by (cases st) simp

lemma bindA_when_add:
  "bindA (when_add c t) f st = f () (graph_update (add_all (if c then [t] else [])) st)"
  by (cases c) (simp_all add: bindA_def add_def when_add_def returnA_def add_all_single)

lemma bindA_convert_date_PyStr:
  "bindA (convert_date e n (PyStr s)) f st =
     f (case strptime e s of Some d \<Rightarrow> d | None \<Rightarrow> now e n) st"
  by (simp add: bindA_def convert_date_def returnA_def split: option.split)

lemma bindA_convert_date_PyNone:
  "bindA (convert_date e n PyNone) f st = (Inl TypeError, st)"
  by (simp add: bindA_def convert_date_def raiseA_def)

lemmas run_simps = bindA_getitem bindA_add bindA_when_add bindA_convert_date_PyStr
  bindA_convert_date_PyNone add_def option.case cell.case

lemma graph_update_add_all:
  "graph_update (add_all ys) (graph_update (add_all xs) st) = graph_update (add_all (xs @ ys)) st"
  by (cases st) (simp add: add_all_append)

lemma graph_update_graph_add:
  "graph_update (graph_add t) st = graph_update (add_all [t]) st"
  by (simp add: add_all_single)

lemma process_review_ok:
  assumes "r ''data_avaliacao'' = Some (PyStr s)" "r ''fonte'' = Some a" "r ''recomendacao'' = Some b"
    "r ''comentario'' = Some c" "r ''vantagem'' = Some v" "r ''desvantagem'' = Some d"
  shows "process_review e n r sw rv st =
     (Inr (), graph_update (add_all (review_attrs e n r @
        [(sw, SW ''hasReview'', review_uri n), (review_uri n, SW ''madeBy'', rv)])) st)"
  unfolding process_review_def Let_def
  apply (simp only: run_simps assms)
  apply (simp only: graph_update_graph_add graph_update_add_all)
  apply (simp add: review_attrs_def review_uri_def cell_of_def row_get_def date_of_def assms)
  done

lemma process_review_no_date:
  "r ''data_avaliacao'' = None \<Longrightarrow>
   process_review e n r sw rv st = (Inl (KeyError ''data_avaliacao''), st)"
  unfolding process_review_def Let_def by (simp only: run_simps)

lemma process_review_date_None:
  "r ''data_avaliacao'' = Some PyNone \<Longrightarrow> process_review e n r sw rv st = (Inl TypeError, st)"
  unfolding process_review_def Let_def by (simp only: run_simps)

lemma review_attrs_unfold:
  "r ''data_avaliacao'' = Some (PyStr s) \<Longrightarrow>
   review_attrs e n r =
     (SW (''review_'' @ str_nat n), RDF_type, SW ''Review'') #
     (SW (''review_'' @ str_nat n), SW ''fonte'', literal (cell_of r ''fonte'')) #
     (SW (''review_'' @ str_nat n), SW ''recomendacao'', literal (cell_of r ''recomendacao'')) #
     (SW (''review_'' @ str_nat n), SW ''data_avaliacao'',
        DateLiteral (case strptime e s of Some d \<Rightarrow> d | None \<Rightarrow> now e n)) #
     (SW (''review_'' @ str_nat n), SW ''comentario'', literal (cell_of r ''comentario'')) #
     (SW (''review_'' @ str_nat n), SW ''vantagem'', literal (cell_of r ''vantagem'')) #
     (SW (''review_'' @ str_nat n), SW ''desvantagem'', literal (cell_of r ''desvantagem'')) #
     ((if truthy (cell_of r ''sft_anterior'')
        then [(SW (''review_'' @ str_nat n), SW ''sft_anterior'', literal (cell_of r ''sft_anterior''))] else [])
     @ (if truthy (cell_of r ''motivo_mudanca'')
        then [(SW (''review_'' @ str_nat n), SW ''motivo_mudanca'', literal (cell_of r ''motivo_mudanca''))] else []))"
  by (simp add: review_attrs_def review_uri_def date_of_def cell_of_def row_get_def)

lemma cell_of_Some: "r k = Some v \<Longrightarrow> cell_of r k = v"
  by (simp add: cell_of_def row_get_def)

lemma process_review_no_fonte:
  assumes "r ''data_avaliacao'' = Some (PyStr s)" "r ''fonte'' = None"
  shows "process_review e n r sw rv st =
     (Inl (KeyError ''fonte''), graph_update (add_all (take 1 (review_attrs e n r))) st)"
  unfolding process_review_def Let_def
  apply (simp only: run_simps assms)
  apply (simp only: graph_update_graph_add graph_update_add_all)
  apply (simp add: review_attrs_unfold [where r=r and s=s, OF assms(1)])
  done

lemma process_review_no_recomendacao:
  assumes "r ''data_avaliacao'' = Some (PyStr s)" "r ''fonte'' = Some a" "r ''recomendacao'' = None"
  shows "process_review e n r sw rv st =
     (Inl (KeyError ''recomendacao''), graph_update (add_all (take 2 (review_attrs e n r))) st)"
  unfolding process_review_def Let_def
  apply (simp only: run_simps assms)
  apply (simp only: graph_update_graph_add graph_update_add_all)
  apply (simp add: review_attrs_unfold [where r=r and s=s, OF assms(1)] cell_of_Some [where r=r, OF assms(2)])
  done

lemma process_review_no_comentario:
  assumes "r ''data_avaliacao'' = Some (PyStr s)" "r ''fonte'' = Some a" "r ''recomendacao'' = Some b"
    "r ''comentario'' = None"
  shows "process_review e n r sw rv st =
     (Inl (KeyError ''comentario''), graph_update (add_all (take 4 (review_attrs e n r))) st)"
  unfolding process_review_def Let_def
  apply (simp only: run_simps assms)
  apply (simp only: graph_update_graph_add graph_update_add_all)
  apply (simp add: review_attrs_unfold [where r=r and s=s, OF assms(1)] cell_of_Some [where r=r, OF assms(2)] cell_of_Some [where r=r, OF assms(3)])
  done

lemma process_review_no_vantagem:
  assumes "r ''data_avaliacao'' = Some (PyStr s)" "r ''fonte'' = Some a" "r ''recomendacao'' = Some b"
    "r ''comentario'' = Some c" "r ''vantagem'' = None"
  shows "process_review e n r sw rv st =
     (Inl (KeyError ''vantagem''), graph_update (add_all (take 5 (review_attrs e n r))) st)"
  unfolding process_review_def Let_def
  apply (simp only: run_simps assms)
  apply (simp only: graph_update_graph_add graph_update_add_all)
  apply (simp add: review_attrs_unfold [where r=r and s=s, OF assms(1)] cell_of_Some [where r=r, OF assms(2)] cell_of_Some [where r=r, OF assms(3)]
      cell_of_Some [where r=r, OF assms(4)])
  done

lemma process_review_no_desvantagem:
  assumes "r ''data_avaliacao'' = Some (PyStr s)" "r ''fonte'' = Some a" "r ''recomendacao'' = Some b"
    "r ''comentario'' = Some c" "r ''vantagem'' = Some v" "r ''desvantagem'' = None"
  shows "process_review e n r sw rv st =
     (Inl (KeyError ''desvantagem''), graph_update (add_all (take 6 (review_attrs e n r))) st)"
  unfolding process_review_def Let_def
  apply (simp only: run_simps assms)
  apply (simp only: graph_update_graph_add graph_update_add_all)
  apply (simp add: review_attrs_unfold [where r=r and s=s, OF assms(1)] cell_of_Some [where r=r, OF assms(2)] cell_of_Some [where r=r, OF assms(3)]
      cell_of_Some [where r=r, OF assms(4)] cell_of_Some [where r=r, OF assms(5)])
  done

lemma type_in_attrs: "(review_uri n, RDF_type, SW ''Review'') \<in> set (review_attrs e n r)"
  by (simp add: review_attrs_def)

lemma head_take:
  "0 < k \<Longrightarrow> (review_uri n, RDF_type, SW ''Review'') \<in> set (take k (review_attrs e n r))"
  by (cases k) (simp_all add: review_attrs_def)

lemma process_review_cases [case_names err ok]:
  obtains (err) err ts where
      "process_review e n r sw rv st = (Inl err, graph_update (add_all ts) st)"
      "set ts \<subseteq> set (review_attrs e n r)" "\<not> review_ok r"
      "date_ok r \<Longrightarrow> (review_uri n, RDF_type, SW ''Review'') \<in> set ts"
  | (ok)
      "process_review e n r sw rv st =
         (Inr (), graph_update (add_all (review_attrs e n r @
            [(sw, SW ''hasReview'', review_uri n), (review_uri n, SW ''madeBy'', rv)])) st)"
      "review_ok r"
proof (cases "r ''data_avaliacao''")
  case None
  from process_review_no_date [where r=r, OF None] None show ?thesis
    by (intro err [of _ "[]"]) (simp_all add: review_ok_def date_ok_def)
next
  case (Some dv)
  show ?thesis
  proof (cases dv)
    case PyNone
    with Some have dn: "r ''data_avaliacao'' = Some PyNone" by simp
    from process_review_date_None [where r=r, OF dn] dn show ?thesis
      by (intro err [of _ "[]"]) (simp_all add: review_ok_def date_ok_def)
  next
    case (PyStr s)
    with Some have ds: "r ''data_avaliacao'' = Some (PyStr s)" by simp
    show ?thesis
    proof (cases "r ''fonte''")
      case None
      from process_review_no_fonte [where r=r, OF ds None] None show ?thesis
        by (intro err) (auto simp: review_ok_def head_take dest: in_set_takeD)
    next
      case fo: (Some a)
      show ?thesis
      proof (cases "r ''recomendacao''")
        case None
        from process_review_no_recomendacao [where r=r, OF ds fo None] None show ?thesis
          by (intro err) (auto simp: review_ok_def head_take dest: in_set_takeD)
      next
        case re: (Some b)
        show ?thesis
        proof (cases "r ''comentario''")
          case None
          from process_review_no_comentario [where r=r, OF ds fo re None] None show ?thesis
            by (intro err) (auto simp: review_ok_def head_take dest: in_set_takeD)
        next
          case co: (Some c)
          show ?thesis
          proof (cases "r ''vantagem''")
            case None
            from process_review_no_vantagem [where r=r, OF ds fo re co None] None show ?thesis
              by (intro err) (auto simp: review_ok_def head_take dest: in_set_takeD)
          next
            case va: (Some v)
            show ?thesis
            proof (cases "r ''desvantagem''")
              case None
              from process_review_no_desvantagem [where r=r, OF ds fo re co va None] None show ?thesis
                by (intro err) (auto simp: review_ok_def head_take dest: in_set_takeD)
            next
              case de: (Some d)
              from process_review_ok [where r=r, OF ds fo re co va de] ds fo re co va de show ?thesis
                by (intro ok) (simp_all add: review_ok_def date_ok_def)
            qed
          qed
        qed
      qed
    qed
  qed
qed

lemma graph_update_eq:
  "graph_update (add_all ts) st = st\<lparr>graph := add_all ts (graph st)\<rparr>"
  by (cases st) simp

lemma process_software_None:
  "r ''software_id'' = None \<Longrightarrow> process_software r st = (Inl (KeyError ''software_id''), st)"
  unfolding process_software_def by (simp only: run_simps)

lemma process_software_Some:
  assumes "r ''software_id'' = Some c"
  shows "process_software r st =
     (Inr (software_uri c), st\<lparr>graph := add_all (software_part r st) (graph st)\<rparr>)"
proof -
  have c: "cell_of r ''software_id'' = c"
    using assms by (simp add: cell_of_def row_get_def)
  have "process_software r st =
      get_or_create_software c (name_of r) (cell_of r ''pagina'') st"
    unfolding process_software_def
    by (simp only: run_simps assms) (simp add: name_of_def cell_of_def row_get_def assms)
  also have "\<dots> = (Inr (software_uri c), st\<lparr>graph := add_all (software_part r st) (graph st)\<rparr>)"
    by (simp add: get_or_create_software_def software_part_def software_triples_def c
        software_uri_def Let_def)
  finally show ?thesis .
qed

lemma process_reviewer_err:
  assumes "\<not> reviewer_ok r"
  shows "\<exists>k. process_reviewer r st = (Inl (KeyError k), st)"
proof (cases "r ''setor''")
  case None
  then show ?thesis unfolding process_reviewer_def by (simp only: run_simps) simp
next
  case a: (Some a)
  show ?thesis
  proof (cases "r ''porte''")
    case None
    then show ?thesis unfolding process_reviewer_def by (simp only: run_simps a) simp
  next
    case b: (Some b)
    show ?thesis
    proof (cases "r ''frequencia''")
      case None
      then show ?thesis unfolding process_reviewer_def by (simp only: run_simps a b) simp
    next
      case c: (Some c)
      show ?thesis
      proof (cases "r ''frequencia_complementar''")
        case None
        then show ?thesis unfolding process_reviewer_def by (simp only: run_simps a b c) simp
      next
        case (Some d)
        with a b c assms show ?thesis by (simp add: reviewer_ok_def)
      qed
    qed
  qed
qed

lemma process_reviewer_ok:
  assumes "reviewer_ok r"
  shows "process_reviewer r st =
     (Inr (reviewer_for st (key_of r)),
      st\<lparr>graph := add_all (reviewer_part r st) (graph st),
         reviewer_cache :=
           (if map_of (reviewer_cache st) (key_of r) = None
            then reviewer_cache st @ [(key_of r, reviewer_for st (key_of r))]
            else reviewer_cache st)\<rparr>)"
proof -
  from assms obtain a b c d where
    f: "r ''setor'' = Some a" "r ''porte'' = Some b" "r ''frequencia'' = Some c"
       "r ''frequencia_complementar'' = Some d"
    by (auto simp: reviewer_ok_def)
  have k: "key_of r = (a, b, c, d)"
    using f by (simp add: key_of_def cell_of_def row_get_def)
  have "process_reviewer r st = get_or_create_reviewer a b c d st"
    unfolding process_reviewer_def by (simp only: run_simps f)
  also have "\<dots> = (Inr (reviewer_for st (key_of r)),
      st\<lparr>graph := add_all (reviewer_part r st) (graph st),
         reviewer_cache :=
           (if map_of (reviewer_cache st) (key_of r) = None
            then reviewer_cache st @ [(key_of r, reviewer_for st (key_of r))]
            else reviewer_cache st)\<rparr>)"
    by (cases "map_of (reviewer_cache st) (a, b, c, d)")
       (simp_all add: get_or_create_reviewer_def reviewer_part_def reviewer_for_def k
          reviewer_triples_def reviewer_uri_def Let_def)
  finally show ?thesis .
qed

lemma bindA_Inl: "m st = (Inl err, st') \<Longrightarrow> bindA m f st = (Inl err, st')"
  by (simp add: bindA_def)

lemma bindA_Inr: "m st = (Inr x, st') \<Longrightarrow> bindA m f st = f x st'"
  by (simp add: bindA_def)

lemma reviewer_for_graph [simp]: "reviewer_for (st\<lparr>graph := g\<rparr>) k = reviewer_for st k"
  by (simp add: reviewer_for_def split: option.split)

lemma reviewer_part_graph [simp]: "reviewer_part r (st\<lparr>graph := g\<rparr>) = reviewer_part r st"
  by (simp add: reviewer_part_def split: option.split)

lemma populator_same [simp]:
  "st\<lparr>graph := graph st\<rparr> = st" "st\<lparr>reviewer_cache := reviewer_cache st\<rparr> = st"
  by (cases st, simp)+

lemma process_row_no_software_id:
  "r ''software_id'' = None \<Longrightarrow> process_row e n r st = (Inl (KeyError ''software_id''), st)"
  unfolding process_row_def
  by (simp add: bindA_def process_software_None)

lemma process_row_ok:
  assumes "row_ok r"
  shows "process_row e n r st =
     (Inr (), st\<lparr>graph := add_all (row_triples e n r st) (graph st),
                reviewer_cache := cache_after r st\<rparr>)"
proof -
  from assms obtain c where c: "r ''software_id'' = Some c"
    and rv: "reviewer_ok r" and rw: "review_ok r"
    by (auto simp: row_ok_def)
  have cc: "cell_of r ''software_id'' = c"
    using c by (simp add: cell_of_def row_get_def)
  define st1 where "st1 = st\<lparr>graph := add_all (software_part r st) (graph st)\<rparr>"
  define st2 where "st2 = st1\<lparr>graph := add_all (reviewer_part r st1) (graph st1),
         reviewer_cache :=
           (if map_of (reviewer_cache st1) (key_of r) = None
            then reviewer_cache st1 @ [(key_of r, reviewer_for st1 (key_of r))]
            else reviewer_cache st1)\<rparr>"
  have 1: "process_software r st = (Inr (software_uri c), st1)"
    unfolding st1_def by (rule process_software_Some [where r=r, OF c])
  have 2: "process_reviewer r st1 = (Inr (reviewer_for st1 (key_of r)), st2)"
    unfolding st2_def by (rule process_reviewer_ok [OF rv])
  have 3: "process_review e n r (software_uri c) (reviewer_for st1 (key_of r)) st2 =
      (Inr (), graph_update (add_all (review_attrs e n r @
            [(software_uri c, SW ''hasReview'', review_uri n),
             (review_uri n, SW ''madeBy'', reviewer_for st1 (key_of r))])) st2)"
    by (rule process_review_cases [of e n r "software_uri c" "reviewer_for st1 (key_of r)" st2])
       (use rw in simp_all)
  have "process_row e n r st =
      (Inr (), graph_update (add_all (review_attrs e n r @
            [(software_uri c, SW ''hasReview'', review_uri n),
             (review_uri n, SW ''madeBy'', reviewer_for st1 (key_of r))])) st2)"
    unfolding process_row_def by (simp add: bindA_def 1 2 3)
  also have "graph_update (add_all (review_attrs e n r @
            [(software_uri c, SW ''hasReview'', review_uri n),
             (review_uri n, SW ''madeBy'', reviewer_for st1 (key_of r))])) st2 =
       st\<lparr>graph := add_all (row_triples e n r st) (graph st),
                reviewer_cache := cache_after r st\<rparr>"
    by (simp add: graph_update_eq st2_def st1_def row_triples_def links_def cc add_all_append
        cache_after_def c rv)
  finally show ?thesis .
qed

lemma process_row_err:
  assumes "\<not> row_ok r"
  obtains err ts where
    "process_row e n r st =
       (Inl err, st\<lparr>graph := add_all ts (graph st), reviewer_cache := cache_after r st\<rparr>)"
    "set ts \<subseteq> set (software_part r st) \<union> set (reviewer_part r st) \<union> set (review_attrs e n r)"
    "r ''software_id'' \<noteq> None \<Longrightarrow> set (software_part r st) \<subseteq> set ts"
    "r ''software_id'' = None \<Longrightarrow> ts = []"
    "r ''software_id'' \<noteq> None \<Longrightarrow> reviewer_ok r \<Longrightarrow> set (reviewer_part r st) \<subseteq> set ts"
    "reaches_review r \<Longrightarrow> (review_uri n, RDF_type, SW ''Review'') \<in> set ts"
proof (cases "r ''software_id''")
  case None
  have eq: "process_row e n r st =
      (Inl (KeyError ''software_id''),
       st\<lparr>graph := add_all [] (graph st), reviewer_cache := cache_after r st\<rparr>)"
    using process_row_no_software_id [where r=r, OF None] None by (simp add: cache_after_def)
  show ?thesis by (rule that [OF eq]) (use None in \<open>simp_all add: reaches_review_def\<close>)
next
  case c: (Some c)
  define st1 where "st1 = st\<lparr>graph := add_all (software_part r st) (graph st)\<rparr>"
  have 1: "process_software r st = (Inr (software_uri c), st1)"
    unfolding st1_def by (rule process_software_Some [where r=r, OF c])
  show ?thesis
  proof (cases "reviewer_ok r")
    case False
    from process_reviewer_err [OF False] obtain k where
      2: "process_reviewer r st1 = (Inl (KeyError k), st1)" by blast
    have "process_row e n r st = (Inl (KeyError k), st1)"
      unfolding process_row_def by (simp add: bindA_def 1 2)
    also have "st1 = st\<lparr>graph := add_all (software_part r st) (graph st),
         reviewer_cache := cache_after r st\<rparr>"
      using False by (simp add: st1_def cache_after_def)
    finally have eq: "process_row e n r st =
        (Inl (KeyError k), st\<lparr>graph := add_all (software_part r st) (graph st),
           reviewer_cache := cache_after r st\<rparr>)" .
    show ?thesis by (rule that [OF eq]) (use c False in \<open>auto simp: reaches_review_def\<close>)
  next
    case rv: True
    with assms c have rw: "\<not> review_ok r" by (simp add: row_ok_def)
    define st2 where "st2 = st1\<lparr>graph := add_all (reviewer_part r st1) (graph st1),
         reviewer_cache :=
           (if map_of (reviewer_cache st1) (key_of r) = None
            then reviewer_cache st1 @ [(key_of r, reviewer_for st1 (key_of r))]
            else reviewer_cache st1)\<rparr>"
    have 2: "process_reviewer r st1 = (Inr (reviewer_for st1 (key_of r)), st2)"
      unfolding st2_def by (rule process_reviewer_ok [OF rv])
    obtain err ts where 3:
      "process_review e n r (software_uri c) (reviewer_for st1 (key_of r)) st2 =
         (Inl err, graph_update (add_all ts) st2)"
      and ts: "set ts \<subseteq> set (review_attrs e n r)"
      and ty: "date_ok r \<Longrightarrow> (review_uri n, RDF_type, SW ''Review'') \<in> set ts"
      by (rule process_review_cases [of e n r "software_uri c" "reviewer_for st1 (key_of r)" st2])
         (use rw in simp_all)
    have "process_row e n r st = (Inl err, graph_update (add_all ts) st2)"
      unfolding process_row_def by (simp add: bindA_def 1 2 3)
    also have "graph_update (add_all ts) st2 =
        st\<lparr>graph := add_all (software_part r st @ reviewer_part r st @ ts) (graph st),
           reviewer_cache := cache_after r st\<rparr>"
      by (simp add: graph_update_eq st2_def st1_def add_all_append cache_after_def c rv)
    finally have eq: "process_row e n r st =
        (Inl err, st\<lparr>graph := add_all (software_part r st @ reviewer_part r st @ ts) (graph st),
           reviewer_cache := cache_after r st\<rparr>)" .
    show ?thesis by (rule that [OF eq]) (use ts ty c in \<open>auto simp: reaches_review_def\<close>)
  qed
qed

lemma SW_inj [simp]: "SW x = SW y \<longleftrightarrow> x = y" by (simp add: SW_def)

lemma SW_neq [simp]:
  "SW x \<noteq> RDF_type" "SW x \<noteq> RDFS_domain" "SW x \<noteq> RDFS_range" "SW x \<noteq> OWL_Class"
  "SW x \<noteq> OWL_ObjectProperty" "SW x \<noteq> OWL_DatatypeProperty" "SW x \<noteq> XSD_string" "SW x \<noteq> XSD_date"
  "RDF_type \<noteq> SW x" "RDFS_domain \<noteq> SW x" "RDFS_range \<noteq> SW x" "OWL_Class \<noteq> SW x"
  "OWL_ObjectProperty \<noteq> SW x" "OWL_DatatypeProperty \<noteq> SW x" "XSD_string \<noteq> SW x" "XSD_date \<noteq> SW x"
  by (simp_all add: SW_def RDF_type_def RDFS_domain_def RDFS_range_def OWL_Class_def
      OWL_ObjectProperty_def OWL_DatatypeProperty_def XSD_string_def XSD_date_def)

lemma voc_neq [simp]:
  "RDF_type \<noteq> RDFS_domain" "RDF_type \<noteq> RDFS_range" "RDFS_domain \<noteq> RDFS_range"
  "RDFS_domain \<noteq> RDF_type" "RDFS_range \<noteq> RDF_type" "RDFS_range \<noteq> RDFS_domain"
  "OWL_Class \<noteq> OWL_ObjectProperty" "OWL_Class \<noteq> OWL_DatatypeProperty"
  "OWL_ObjectProperty \<noteq> OWL_DatatypeProperty" "OWL_ObjectProperty \<noteq> OWL_Class"
  "OWL_DatatypeProperty \<noteq> OWL_Class" "OWL_DatatypeProperty \<noteq> OWL_ObjectProperty"
  "XSD_string \<noteq> XSD_date" "XSD_date \<noteq> XSD_string"
  by (simp_all add: RDF_type_def RDFS_domain_def RDFS_range_def OWL_Class_def
      OWL_ObjectProperty_def OWL_DatatypeProperty_def XSD_string_def XSD_date_def)

lemma digit_val_digit_char: "d < 10 \<Longrightarrow> digit_val (digit_char d) = d"
  by (simp add: digit_val_def digit_char_def)

lemma nat_of_str_snoc: "nat_of_str (s @ [c]) = 10 * nat_of_str s + digit_val c"
  by (simp add: nat_of_str_def)

lemma nat_of_str_str_nat: "nat_of_str (str_nat n) = n"
proof (induction n rule: str_nat.induct)
  case (1 n)
  show ?case
  proof (cases "n < 10")
    case True
    then show ?thesis
      by (subst str_nat.simps) (simp add: nat_of_str_def digit_val_digit_char)
  next
    case False
    with 1 have "nat_of_str (str_nat (n div 10)) = n div 10" by simp
    with False show ?thesis
      by (subst str_nat.simps) (simp add: nat_of_str_snoc digit_val_digit_char)
  qed
qed

lemma str_nat_inj [simp]: "str_nat a = str_nat b \<longleftrightarrow> a = b"
  by (metis nat_of_str_str_nat)

lemma review_uri_inj [simp]: "review_uri a = review_uri b \<longleftrightarrow> a = b"
  by (simp add: review_uri_def)

lemma reviewer_uri_inj [simp]: "reviewer_uri a = reviewer_uri b \<longleftrightarrow> a = b"
  by (simp add: reviewer_uri_def)

lemma uri_neq [simp]:
  "review_uri n \<noteq> software_uri c" "software_uri c \<noteq> review_uri n"
  "review_uri n \<noteq> reviewer_uri k" "reviewer_uri k \<noteq> review_uri n"
  "software_uri c \<noteq> reviewer_uri k" "reviewer_uri k \<noteq> software_uri c"
  by (simp_all add: review_uri_def software_uri_def reviewer_uri_def)

lemma review_uri_voc [simp]:
  "review_uri n \<noteq> RDF_type" "review_uri n \<noteq> SW ''hasReview''" "review_uri n \<noteq> SW ''madeBy''"
  "review_uri n \<noteq> SW ''Software''" "review_uri n \<noteq> SW ''Review''" "review_uri n \<noteq> SW ''Reviewer''"
  "SW ''Review'' \<noteq> review_uri n"
  by (simp_all add: review_uri_def)

lemma software_triples_shape:
  "t \<in> set (software_triples r) \<Longrightarrow> software_attr (software_uri (cell_of r ''software_id'')) t"
  by (auto simp: software_triples_def software_attr_def Let_def split: if_splits)

lemma software_part_shape:
  "t \<in> set (software_part r st) \<Longrightarrow> software_attr (software_uri (cell_of r ''software_id'')) t"
  by (simp add: software_part_def software_triples_shape split: if_splits)

lemma reviewer_triples_shape:
  "t \<in> set (reviewer_triples u k) \<Longrightarrow> fst t = u \<and> reviewer_attr t"
  by (cases k) (auto simp: reviewer_triples_def reviewer_attr_def)

lemma reviewer_part_shape:
  "t \<in> set (reviewer_part r st) \<Longrightarrow>
     fst t = reviewer_uri (length (reviewer_cache st) + 1) \<and> reviewer_attr t"
  by (cases "map_of (reviewer_cache st) (key_of r)")
     (auto simp: reviewer_part_def reviewer_for_def dest: reviewer_triples_shape)

lemma review_attrs_shape:
  "t \<in> set (review_attrs e n r) \<Longrightarrow> fst t = review_uri n \<and> review_attr t"
  by (auto simp: review_attrs_def review_attr_def split: if_splits)

lemma row_triples_cases:
  assumes "t \<in> set (row_triples e m r st)"
  shows "software_attr (software_uri (cell_of r ''software_id'')) t
       \<or> (fst t = reviewer_uri (length (reviewer_cache st) + 1) \<and> reviewer_attr t)
       \<or> (fst t = review_uri m \<and> review_attr t)
       \<or> t = (software_uri (cell_of r ''software_id''), SW ''hasReview'', review_uri m)
       \<or> t = (review_uri m, SW ''madeBy'', reviewer_for st (key_of r))"
  using assms software_part_shape [of t r st] reviewer_part_shape [of t r st]
    review_attrs_shape [of t e m r]
  by (auto simp: row_triples_def links_def)

lemma not_link_attr:
  "software_attr u t \<Longrightarrow> fst (snd t) \<noteq> SW ''hasReview'' \<and> fst (snd t) \<noteq> SW ''madeBy''"
  "reviewer_attr t \<Longrightarrow> fst (snd t) \<noteq> SW ''hasReview'' \<and> fst (snd t) \<noteq> SW ''madeBy''"
  "review_attr t \<Longrightarrow> fst (snd t) \<noteq> SW ''hasReview'' \<and> fst (snd t) \<noteq> SW ''madeBy''"
  by (auto simp: software_attr_def reviewer_attr_def review_attr_def)

lemma process_row_step:
  obtains res ts where
    "process_row e n r st =
       (res, st\<lparr>graph := add_all ts (graph st), reviewer_cache := cache_after r st\<rparr>)"
    "set ts \<subseteq> set (row_triples e n r st)"
    "res = Inr () \<longleftrightarrow> row_ok r"
    "row_ok r \<Longrightarrow> ts = row_triples e n r st"
    "\<not> row_ok r \<Longrightarrow> \<forall>t\<in>set ts. fst (snd t) \<noteq> SW ''hasReview'' \<and> fst (snd t) \<noteq> SW ''madeBy''"
    "r ''software_id'' = None \<Longrightarrow> ts = []"
    "r ''software_id'' \<noteq> None \<Longrightarrow> set (software_part r st) \<subseteq> set ts"
    "r ''software_id'' \<noteq> None \<Longrightarrow> reviewer_ok r \<Longrightarrow> set (reviewer_part r st) \<subseteq> set ts"
    "reaches_review r \<Longrightarrow> (review_uri n, RDF_type, SW ''Review'') \<in> set ts"
proof (cases "row_ok r")
  case True
  show ?thesis
  proof (rule that [of "Inr ()" "row_triples e n r st"])
    show "process_row e n r st =
       (Inr (), st\<lparr>graph := add_all (row_triples e n r st) (graph st),
                  reviewer_cache := cache_after r st\<rparr>)"
      by (rule process_row_ok [OF True])
  qed (use True type_in_attrs [of n e r] in \<open>auto simp: row_triples_def row_ok_def\<close>)
next
  case False
  show ?thesis
  proof (rule process_row_err [OF False, of e n st])
    fix err ts
    assume eq: "process_row e n r st =
           (Inl err, st\<lparr>graph := add_all ts (graph st), reviewer_cache := cache_after r st\<rparr>)"
      and sub: "set ts \<subseteq> set (software_part r st) \<union> set (reviewer_part r st) \<union> set (review_attrs e n r)"
      and sw: "r ''software_id'' \<noteq> None \<Longrightarrow> set (software_part r st) \<subseteq> set ts"
      and nil: "r ''software_id'' = None \<Longrightarrow> ts = []"
      and rp: "r ''software_id'' \<noteq> None \<Longrightarrow> reviewer_ok r \<Longrightarrow> set (reviewer_part r st) \<subseteq> set ts"
      and ty: "reaches_review r \<Longrightarrow> (review_uri n, RDF_type, SW ''Review'') \<in> set ts"
    have nolink: "\<forall>t\<in>set ts. fst (snd t) \<noteq> SW ''hasReview'' \<and> fst (snd t) \<noteq> SW ''madeBy''"
    proof
      fix t assume "t \<in> set ts"
      with sub have "t \<in> set (software_part r st) \<or> t \<in> set (reviewer_part r st)
          \<or> t \<in> set (review_attrs e n r)" by auto
      then show "fst (snd t) \<noteq> SW ''hasReview'' \<and> fst (snd t) \<noteq> SW ''madeBy''"
        using software_part_shape [of t r st] reviewer_part_shape [of t r st]
          review_attrs_shape [of t e n r] not_link_attr by blast
    qed
    show thesis
      by (rule that [OF eq]) (use sub sw nil rp ty nolink False in \<open>auto simp: row_triples_def\<close>)
  qed
qed

lemma process_rows_append:
  "process_rows e n (xs @ ys) run = process_rows e (n + length xs) ys (process_rows e n xs run)"
proof (induction xs arbitrary: n run)
  case Nil
  show ?case by simp
next
  case (Cons x xs)
  obtain st out where run: "run = (st, out)" by (cases run)
  show ?case
    by (cases "process_row e n x st" rule: prod.exhaust)
       (auto simp: run Cons split: sum.splits)
qed

lemma add_all_fresh:
  "distinct ts \<Longrightarrow> set ts \<inter> set g = {} \<Longrightarrow> add_all ts g = rev ts @ g"
  by (induction ts arbitrary: g) (auto simp: graph_add_def)

lemma fold_declare_property:
  "fold (declare_property kind) ds g = add_all (concat (map (declared kind) ds)) g"
  by (induction ds arbitrary: g)
     (auto simp: declare_property_def declared_def add_all_append split: prod.splits)

lemma fold_classes:
  "fold (\<lambda>cls. graph_add (cls, RDF_type, OWL_Class)) cs g =
     add_all (map (\<lambda>cls. (cls, RDF_type, OWL_Class)) cs) g"
  by (induction cs arbitrary: g) auto

lemma initialize_ontology_add_all: "initialize_ontology g = add_all schema_triples g"
  by (simp add: initialize_ontology_def schema_triples_def fold_declare_property fold_classes
      add_all_append)

lemma distinct_schema_triples: "distinct schema_triples"
  by (simp add: schema_triples_def classes_def obj_properties_def dt_properties_def
      declared_def)

lemma graph_init: "graph init = rev schema_triples"
  by (simp add: init_def initialize_ontology_add_all add_all_fresh distinct_schema_triples)

lemma schema_triples_schema: "t \<in> set schema_triples \<Longrightarrow> is_schema_triple t"
  by (auto simp: schema_triples_def declared_def is_schema_triple_def split: prod.splits)

lemma step_facts:
  fixes e m r s
  defines "s' \<equiv> snd (process_row e m r s)"
  shows step_result: "fst (process_row e m r s) = Inr () \<longleftrightarrow> row_ok r"
    and step_cache: "reviewer_cache s' = cache_after r s"
    and step_mono: "set (graph s) \<subseteq> set (graph s')"
    and step_new: "set (graph s') \<subseteq> set (graph s) \<union> set (row_triples e m r s)"
    and step_distinct: "distinct (graph s) \<Longrightarrow> distinct (graph s')"
    and step_ok: "row_ok r \<Longrightarrow> set (graph s') = set (graph s) \<union> set (row_triples e m r s)"
    and step_err:
      "\<not> row_ok r \<Longrightarrow> \<forall>t\<in>set (graph s'). t \<in> set (graph s) \<or>
          (fst (snd t) \<noteq> SW ''hasReview'' \<and> fst (snd t) \<noteq> SW ''madeBy'')"
    and step_software: "r ''software_id'' \<noteq> None \<Longrightarrow> set (software_part r s) \<subseteq> set (graph s')"
    and step_reviewer:
      "r ''software_id'' \<noteq> None \<Longrightarrow> reviewer_ok r \<Longrightarrow> set (reviewer_part r s) \<subseteq> set (graph s')"
    and step_typed:
      "reaches_review r \<Longrightarrow> (review_uri m, RDF_type, SW ''Review'') \<in> set (graph s')"
    and step_filter:
      "\<forall>t\<in>set (row_triples e m r s). \<not> P t \<Longrightarrow> filter P (graph s') = filter P (graph s)"
proof -
  obtain res ts where
    eq: "process_row e m r s =
       (res, s\<lparr>graph := add_all ts (graph s), reviewer_cache := cache_after r s\<rparr>)"
    and sub: "set ts \<subseteq> set (row_triples e m r s)"
    and res: "res = Inr () \<longleftrightarrow> row_ok r"
    and ok: "row_ok r \<Longrightarrow> ts = row_triples e m r s"
    and err: "\<not> row_ok r \<Longrightarrow> \<forall>t\<in>set ts. fst (snd t) \<noteq> SW ''hasReview'' \<and> fst (snd t) \<noteq> SW ''madeBy''"
    and sw: "r ''software_id'' \<noteq> None \<Longrightarrow> set (software_part r s) \<subseteq> set ts"
    and rp: "r ''software_id'' \<noteq> None \<Longrightarrow> reviewer_ok r \<Longrightarrow> set (reviewer_part r s) \<subseteq> set ts"
    and ty: "reaches_review r \<Longrightarrow> (review_uri m, RDF_type, SW ''Review'') \<in> set ts"
    by (rule process_row_step [of e m r s]) blast
  have g: "graph s' = add_all ts (graph s)" and c: "reviewer_cache s' = cache_after r s"
    by (simp_all add: s'_def eq)
  show "fst (process_row e m r s) = Inr () \<longleftrightarrow> row_ok r" by (simp add: eq res)
  show "reviewer_cache s' = cache_after r s" by (rule c)
  show "set (graph s) \<subseteq> set (graph s')" by (simp add: g set_add_all)
  show "set (graph s') \<subseteq> set (graph s) \<union> set (row_triples e m r s)"
    using sub by (auto simp: g set_add_all)
  show "distinct (graph s) \<Longrightarrow> distinct (graph s')" by (simp add: g distinct_add_all)
  show "row_ok r \<Longrightarrow> set (graph s') = set (graph s) \<union> set (row_triples e m r s)"
    using ok by (auto simp: g set_add_all)
  show "\<not> row_ok r \<Longrightarrow> \<forall>t\<in>set (graph s'). t \<in> set (graph s) \<or>
          (fst (snd t) \<noteq> SW ''hasReview'' \<and> fst (snd t) \<noteq> SW ''madeBy'')"
    using err by (auto simp: g set_add_all)
  show "r ''software_id'' \<noteq> None \<Longrightarrow> set (software_part r s) \<subseteq> set (graph s')"
    using sw by (auto simp: g set_add_all)
  show "r ''software_id'' \<noteq> None \<Longrightarrow> reviewer_ok r \<Longrightarrow> set (reviewer_part r s) \<subseteq> set (graph s')"
    using rp by (auto simp: g set_add_all)
  show "reaches_review r \<Longrightarrow> (review_uri m, RDF_type, SW ''Review'') \<in> set (graph s')"
    using ty by (auto simp: g set_add_all)
  show "\<forall>t\<in>set (row_triples e m r s). \<not> P t \<Longrightarrow> filter P (graph s') = filter P (graph s)"
    using sub by (auto simp: g intro!: filter_add_all)
qed

lemma fst_process_rows: "fst (process_rows e n rows (st, out)) = run_rows e n rows st"
  by (induction rows arbitrary: n st out) (auto split: prod.splits sum.splits)

lemma snd_process_rows:
  "map fst (snd (process_rows e n rows (st, out))) = map fst out @ run_log n rows"
proof (induction rows arbitrary: n st out)
  case Nil
  show ?case by simp
next
  case (Cons r rs)
  obtain res st' where p: "process_row e n r st = (res, st')" by (cases "process_row e n r st")
  from step_result [of e n r st] p have "res = Inr () \<longleftrightarrow> row_ok r" by simp
  then show ?case by (cases res) (auto simp: p Cons)
qed

lemma run_rows_append:
  "run_rows e n (xs @ ys) st = run_rows e (n + length xs) ys (run_rows e n xs st)"
  by (induction xs arbitrary: n st) simp_all

lemma run_rows_inv:
  assumes "P n st"
    and "\<And>m r s. r \<in> set rows \<Longrightarrow> P m s \<Longrightarrow> P (Suc m) (snd (process_row e m r s))"
  shows "P (n + length rows) (run_rows e n rows st)"
  using assms
proof (induction rows arbitrary: n st)
  case Nil
  then show ?case by simp
next
  case (Cons r rs)
  have "P (Suc n) (snd (process_row e n r st))" using Cons.prems by simp
  from Cons.IH [OF this] Cons.prems(2) show ?case by simp
qed

lemma init_schema: "t \<in> set (graph init) \<Longrightarrow> is_schema_triple t"
  by (simp add: graph_init schema_triples_schema)

lemma distinct_init: "distinct (graph init)"
  by (simp add: graph_init distinct_schema_triples)

lemma init_not_about: "t \<in> set (graph init) \<Longrightarrow> \<not> about k t"
  by (auto simp: graph_init schema_triples_def declared_def classes_def obj_properties_def
      dt_properties_def about_def review_uri_def)

lemma schema_not_software_attr: "is_schema_triple t \<Longrightarrow> \<not> software_attr u t"
  by (auto simp: is_schema_triple_def software_attr_def)

lemma schema_not_typed:
  "is_schema_triple t \<Longrightarrow> fst (snd t) = RDF_type \<Longrightarrow> snd (snd t) \<noteq> SW x"
  by (auto simp: is_schema_triple_def)

lemma row_triples_about:
  assumes "t \<in> set (row_triples e m r st)" "about n t"
  shows "n = m"
  using row_triples_cases [OF assms(1)] assms(2)
  by (auto simp: about_def software_attr_def reviewer_attr_def review_attr_def)

lemma row_triples_about_self:
  "{t \<in> set (row_triples e n r st). about n t} = set (review_attrs e n r) \<union> set (links n r st)"
proof -
  have "t \<in> set (software_part r st) \<Longrightarrow> \<not> about n t" for t
    using software_part_shape [of t r st] by (auto simp: about_def software_attr_def)
  moreover have "t \<in> set (reviewer_part r st) \<Longrightarrow> \<not> about n t" for t
    using reviewer_part_shape [of t r st] by (auto simp: about_def reviewer_attr_def)
  moreover have "t \<in> set (review_attrs e n r) \<Longrightarrow> about n t" for t
    using review_attrs_shape [of t e n r] by (auto simp: about_def)
  moreover have "t \<in> set (links n r st) \<Longrightarrow> about n t" for t
    by (auto simp: about_def links_def)
  ultimately show ?thesis by (auto simp: row_triples_def)
qed

lemma step_about_other:
  assumes "k \<noteq> m"
  shows "{t \<in> set (graph (snd (process_row e m r s))). about k t} = {t \<in> set (graph s). about k t}"
  using step_mono [of s e m r] step_new [of e m r s] row_triples_about [of _ e m r s k] assms
  by blast

lemma about_frozen:
  "k < m \<Longrightarrow> {t \<in> set (graph (run_rows e m rows s)). about k t} = {t \<in> set (graph s). about k t}"
proof (induction rows arbitrary: m s)
  case Nil
  show ?case by simp
next
  case (Cons r rs)
  have "{t \<in> set (graph (run_rows e (Suc m) rs (snd (process_row e m r s)))). about k t} =
        {t \<in> set (graph (snd (process_row e m r s))). about k t}"
    using Cons.prems by (intro Cons.IH) simp
  also have "\<dots> = {t \<in> set (graph s). about k t}"
    using Cons.prems by (intro step_about_other) simp
  finally show ?case by simp
qed

lemma fresh_init: "fresh m init"
  by (simp add: fresh_def init_not_about)

lemma fresh_step: "fresh m s \<Longrightarrow> fresh (Suc m) (snd (process_row e m r s))"
  unfolding fresh_def
  using step_new [of e m r s] row_triples_about [of _ e m r s] by fastforce

lemma fresh_run: "fresh n st \<Longrightarrow> fresh (n + length rows) (run_rows e n rows st)"
  by (rule run_rows_inv [where P = fresh]) (simp_all add: fresh_step)

lemma distinct_run: "distinct (graph st) \<Longrightarrow> distinct (graph (run_rows e n rows st))"
  using run_rows_inv [where P = "\<lambda>_ s. distinct (graph s)" and n = n and st = st and rows = rows and e = e]
  by (simp add: step_distinct)

lemma run_split:
  "run_rows e 1 (pre @ r # post) init =
     run_rows e (Suc (Suc (length pre))) post
       (snd (process_row e (Suc (length pre)) r (run_rows e 1 pre init)))"
  by (simp add: run_rows_append)

lemma about_slice:
  fixes pre r post e
  defines "n \<equiv> Suc (length pre)"
  defines "st \<equiv> run_rows e 1 pre init"
  defines "G \<equiv> graph (run_rows e 1 (pre @ r # post) init)"
  shows about_slice_ok:
      "row_ok r \<Longrightarrow> {t \<in> set G. about n t} = set (review_attrs e n r) \<union> set (links n r st)"
    and about_slice_err:
      "\<not> row_ok r \<Longrightarrow> \<forall>t\<in>set G. about n t \<longrightarrow>
          fst (snd t) \<noteq> SW ''hasReview'' \<and> fst (snd t) \<noteq> SW ''madeBy''"
proof -
  define s' where "s' = snd (process_row e n r st)"
  have G: "{t \<in> set G. about n t} = {t \<in> set (graph s'). about n t}"
    unfolding G_def run_split s'_def st_def n_def by (rule about_frozen) simp
  have "fresh (1 + length pre) st"
    unfolding st_def by (rule fresh_run) (rule fresh_init)
  then have fr: "\<forall>t\<in>set (graph st). \<not> about n t"
    by (simp add: fresh_def n_def)
  show "{t \<in> set G. about n t} = set (review_attrs e n r) \<union> set (links n r st)" if "row_ok r"
  proof -
    have "set (graph s') = set (graph st) \<union> set (row_triples e n r st)"
      unfolding s'_def by (rule step_ok [OF that])
    with fr have "{t \<in> set (graph s'). about n t} = {t \<in> set (row_triples e n r st). about n t}"
      by auto
    then show ?thesis by (simp add: G row_triples_about_self)
  qed
  show "\<forall>t\<in>set G. about n t \<longrightarrow>
          fst (snd t) \<noteq> SW ''hasReview'' \<and> fst (snd t) \<noteq> SW ''madeBy''" if "\<not> row_ok r"
  proof (intro ballI impI)
    fix t assume "t \<in> set G" "about n t"
    with G have "t \<in> set (graph s')" by auto
    with step_err [OF that, of e n st] fr \<open>about n t\<close>
    show "fst (snd t) \<noteq> SW ''hasReview'' \<and> fst (snd t) \<noteq> SW ''madeBy''"
      unfolding s'_def by blast
  qed
qed

lemma typed_reviews_init: "typed_reviews 1 init"
  unfolding typed_reviews_def using init_schema schema_not_typed by blast

lemma typed_reviews_step:
  assumes "1 \<le> m \<and> typed_reviews m s"
  shows "1 \<le> Suc m \<and> typed_reviews (Suc m) (snd (process_row e m r s))"
proof -
  have "\<exists>k. 1 \<le> k \<and> k < Suc m \<and> fst t = review_uri k"
    if t: "t \<in> set (graph (snd (process_row e m r s)))"
      and ty: "fst (snd t) = RDF_type" "snd (snd t) = SW ''Review''" for t
  proof (cases "t \<in> set (graph s)")
    case True
    with assms ty show ?thesis unfolding typed_reviews_def by (meson less_Suc_eq)
  next
    case False
    with t step_new [of e m r s] have "t \<in> set (row_triples e m r s)" by auto
    from row_triples_cases [OF this] ty have "fst t = review_uri m"
      by (auto simp: software_attr_def reviewer_attr_def review_attr_def)
    with assms show ?thesis by auto
  qed
  then show ?thesis unfolding typed_reviews_def by simp
qed

lemma typed_reviews_run:
  "typed_reviews (1 + length rows) (run_rows e 1 rows init)"
  using run_rows_inv [where P = "\<lambda>m s. 1 \<le> m \<and> typed_reviews m s" and n = 1 and st = init
      and rows = rows and e = e] typed_reviews_init
  by (simp add: typed_reviews_step)

lemma strptime_Ymd_invalid: "strptime_Ymd ''2024-13-40'' = None"
  by code_simp

lemma strptime_Ymd_valid: "strptime_Ymd ''2024-01-15'' = Some (Date 2024 1 15)"
  by code_simp

lemma full_row_ok: "row_ok (full_row sid d)"
  by (simp add: row_ok_def reviewer_ok_def review_ok_def date_ok_def full_row_def)

lemma matches_simps [simp]:
  "matches (None, Some p, Some ob) t \<longleftrightarrow> fst (snd t) = p \<and> snd (snd t) = ob"
  "matches (Some s, Some p, None) t \<longleftrightarrow> fst t = s \<and> fst (snd t) = p"
  "matches (Some s, None, None) t \<longleftrightarrow> fst t = s"
  by (auto simp: matches_def split: prod.splits)

lemma filter_empty: "(\<And>t. t \<in> set g \<Longrightarrow> \<not> P t) \<Longrightarrow> filter P g = []"
  by (induction g) auto

lemma distinct_singleton:
  assumes "distinct xs" "set xs = {x}"
  shows "xs = [x]"
proof -
  from assms have "length xs = 1" by (simp add: distinct_card [symmetric])
  then obtain a where "xs = [a]" by (cases xs) auto
  with assms(2) show ?thesis by simp
qed

lemma filter_single:
  assumes "distinct g" "{t \<in> set g. P t} = {x}"
  shows "filter P g = [x]"
  using assms by (intro distinct_singleton) simp_all

lemma subjects_typed_schema:
  "(\<And>t. t \<in> set g \<Longrightarrow> is_schema_triple t) \<Longrightarrow> subjects g RDF_type (SW x) = []"
  unfolding subjects_def triples_def
  using schema_not_typed by (subst filter_empty) auto

lemma process_csv_run: "fst (process_csv e rows) = run_rows e 1 rows init"
  by (simp add: process_csv_def fst_process_rows)

text \<open>
  C9. With no data row the loop body never runs: the graph is the one
  \<^verbatim>\<open>_initialize_ontology\<close> built, nothing is printed, and all three counts are zero.
\<close>

theorem C9_zero_rows:
  "graph (fst (process_csv e [])) = initialize_ontology []
   \<and> snd (process_csv e []) = []
   \<and> print_statistics (fst (process_csv e [])) = (0, 0, 0)"
  by (simp add: process_csv_def print_statistics_def Let_def subjects_typed_schema init_schema)
     (simp add: init_def)

text \<open>
  C8, as stated: fourteen datatype properties. The list \<^verbatim>\<open>dt_properties\<close> has
  fifteen entries, and the initial graph has fifteen subjects typed
  \<^verbatim>\<open>owl:DatatypeProperty\<close>.
\<close>

theorem C8_counterexample:
  "length (subjects (graph init) RDF_type OWL_DatatypeProperty) \<noteq> 14"
  by (simp add: graph_init schema_triples_def classes_def obj_properties_def dt_properties_def
      declared_def subjects_def triples_def)

lemma row_triples_not_schema: "t \<in> set (row_triples e m r st) \<Longrightarrow> \<not> is_schema_triple t"
  using row_triples_cases [of t e m r st]
  by (auto simp: is_schema_triple_def software_attr_def reviewer_attr_def review_attr_def)

lemma schema_filter_run:
  "filter is_schema_triple (graph (run_rows e n rows st)) = filter is_schema_triple (graph st)"
  using run_rows_inv [where P = "\<lambda>_ s. filter is_schema_triple (graph s) = filter is_schema_triple (graph st)"
      and n = n and st = st and rows = rows and e = e]
  by (simp add: step_filter row_triples_not_schema)

text \<open>
  C7. The class and property declarations are written by \<^verbatim>\<open>_initialize_ontology\<close>,
  which only the constructor calls. Whatever rows are processed afterwards, the
  declarations found in the final graph are those of the initial graph, each still
  present once, and the graph holds no triple twice.
\<close>

theorem C7_schema_triples_unchanged:
  "filter is_schema_triple (graph (fst (process_csv e rows))) = initialize_ontology []
   \<and> filter is_schema_triple (initialize_ontology []) = initialize_ontology []
   \<and> distinct (graph (fst (process_csv e rows)))"
proof -
  have "filter is_schema_triple (graph init) = graph init"
    using init_schema by (simp add: filter_id_conv)
  moreover have "graph init = initialize_ontology []" by (simp add: init_def)
  moreover have "distinct (graph (fst (process_csv e rows)))"
    by (simp add: process_csv_run distinct_run distinct_init)
  moreover have "filter is_schema_triple (graph (fst (process_csv e rows))) =
      filter is_schema_triple (graph init)"
    by (simp add: process_csv_run schema_filter_run)
  ultimately show ?thesis by simp
qed

text \<open>
  C8, amended: initialization declares exactly fifteen datatype properties, the ones
  of \<^verbatim>\<open>dt_properties\<close>, each once; each has exactly one \<^verbatim>\<open>rdfs:domain\<close> triple, to
  its domain class, and exactly one \<^verbatim>\<open>rdfs:range\<close> triple, to \<^verbatim>\<open>xsd:string\<close>
  except for \<^verbatim>\<open>data_avaliacao\<close>, whose range is \<^verbatim>\<open>xsd:date\<close>. Of the fifteen, three have
  domain \<^verbatim>\<open>Software\<close>, eight \<^verbatim>\<open>Review\<close> and four \<^verbatim>\<open>Reviewer\<close>.
\<close>

theorem C8_fifteen_datatype_properties:
  "subjects (graph init) RDF_type OWL_DatatypeProperty = rev (map fst dt_properties)
   \<and> length (subjects (graph init) RDF_type OWL_DatatypeProperty) = 15
   \<and> map (\<lambda>p. triples (graph init) (Some p, Some RDFS_domain, None)) (map fst dt_properties)
       = map (\<lambda>(p, d, rg). [(p, RDFS_domain, d)]) dt_properties
   \<and> map (\<lambda>p. triples (graph init) (Some p, Some RDFS_range, None)) (map fst dt_properties)
       = map (\<lambda>p. [(p, RDFS_range, if p = SW ''data_avaliacao'' then XSD_date else XSD_string)])
           (map fst dt_properties)
   \<and> classes = [SW ''Software'', SW ''Review'', SW ''Reviewer'']
   \<and> map (\<lambda>c. length (filter (\<lambda>p. (p, RDFS_domain, c) \<in> set (graph init))
                          (subjects (graph init) RDF_type OWL_DatatypeProperty))) classes
       = [3, 8, 4]"
  by (simp add: graph_init schema_triples_def classes_def obj_properties_def dt_properties_def
      declared_def subjects_def triples_def)

lemma convert_date_indep:
  assumes "strptime e1 = strptime e2" "\<And>s. c = PyStr s \<Longrightarrow> strptime e1 s \<noteq> None"
  shows "convert_date e1 n c = convert_date e2 n c"
proof (cases c)
  case PyNone
  then show ?thesis by (simp add: convert_date_def)
next
  case (PyStr s)
  with assms(2) obtain d where "strptime e1 s = Some d" by auto
  with assms(1) PyStr show ?thesis by (simp add: convert_date_def)
qed

lemma process_review_indep:
  assumes "strptime e1 = strptime e2"
    "\<And>s. r ''data_avaliacao'' = Some (PyStr s) \<Longrightarrow> strptime e1 s \<noteq> None"
  shows "process_review e1 n r sw rv st = process_review e2 n r sw rv st"
proof (cases "r ''data_avaliacao''")
  case None
  then show ?thesis by (simp add: process_review_no_date)
next
  case (Some c)
  have "convert_date e1 n c = convert_date e2 n c"
    using assms Some by (intro convert_date_indep) auto
  then show ?thesis
    unfolding process_review_def Let_def
    by (simp only: bindA_getitem Some option.case)
qed

lemma process_row_indep:
  assumes "strptime e1 = strptime e2"
    "\<And>s. r ''data_avaliacao'' = Some (PyStr s) \<Longrightarrow> strptime e1 s \<noteq> None"
  shows "process_row e1 n r st = process_row e2 n r st"
  unfolding process_row_def bindA_def
  by (simp add: process_review_indep [OF assms] split: prod.splits sum.splits)

lemma process_rows_indep:
  assumes "strptime e1 = strptime e2"
    "\<forall>r\<in>set rows. \<forall>s. r ''data_avaliacao'' = Some (PyStr s) \<longrightarrow> strptime e1 s \<noteq> None"
  shows "process_rows e1 n rows run = process_rows e2 n rows run"
  using assms(2)
proof (induction rows arbitrary: n run)
  case Nil
  show ?case by simp
next
  case (Cons r rs)
  obtain st out where run: "run = (st, out)" by (cases run)
  have "process_row e1 n r st = process_row e2 n r st"
    using Cons.prems by (intro process_row_indep [OF assms(1)]) auto
  moreover have "process_rows e1 m rs x = process_rows e2 m rs x" for m x
    using Cons.prems by (intro Cons.IH) auto
  ultimately show ?case by (simp add: run split: prod.splits sum.splits)
qed

text \<open>
  C10. The loop reads the clock only in the \<^verbatim>\<open>except ValueError\<close> branch of the
  date conversion. Two runs over the same rows, whose environments parse dates alike but
  whose clocks may show anything, end in the same graph, reviewer cache and messages,
  provided no row carries a \<^verbatim>\<open>data_avaliacao\<close> string that fails to parse; this
  covers the rows whose date is valid, and also rows that never reach the conversion.
\<close>

theorem C10_deterministic_without_fallback:
  assumes "strptime e1 = strptime e2"
    and "\<forall>r\<in>set rows. \<forall>s. r ''data_avaliacao'' = Some (PyStr s) \<longrightarrow> strptime e1 s \<noteq> None"
  shows "process_csv e1 rows = process_csv e2 rows"
  unfolding process_csv_def using assms by (rule process_rows_indep)

theorem C10_witness:
  "strptime (clock (Date 2026 11 4)) = strptime (clock (Date 2027 1 1))
   \<and> full_row ''7'' ''2024-01-15'' ''data_avaliacao'' = Some (PyStr ''2024-01-15'')
   \<and> strptime (clock (Date 2026 11 4)) ''2024-01-15'' \<noteq> None
   \<and> process_csv (clock (Date 2026 11 4)) [full_row ''7'' ''2024-01-15'']
       = process_csv (clock (Date 2027 1 1)) [full_row ''7'' ''2024-01-15'']"
proof -
  have h1: "strptime (clock (Date 2026 11 4)) = strptime (clock (Date 2027 1 1))"
    by (simp add: clock_def)
  have h2: "\<forall>r\<in>set [full_row ''7'' ''2024-01-15''].
        \<forall>s. r ''data_avaliacao'' = Some (PyStr s) \<longrightarrow> strptime (clock (Date 2026 11 4)) s \<noteq> None"
    by (simp add: full_row_def clock_def strptime_Ymd_valid)
  have h3: "full_row ''7'' ''2024-01-15'' ''data_avaliacao'' = Some (PyStr ''2024-01-15'')"
    by (simp add: full_row_def)
  have h4: "strptime (clock (Date 2026 11 4)) ''2024-01-15'' \<noteq> None"
    by (simp add: clock_def strptime_Ymd_valid)
  from C10_deterministic_without_fallback [OF h1 h2] h1 h3 h4 show ?thesis by blast
qed

lemma about_slice_skipped:
  assumes "r ''software_id'' = None" "about (Suc (length pre)) t"
  shows "t \<notin> set (graph (run_rows e 1 (pre @ r # post) init))"
proof -
  define st where "st = run_rows e 1 pre init"
  have "fresh (1 + length pre) st"
    unfolding st_def by (rule fresh_run) (rule fresh_init)
  then have fr: "t \<notin> set (graph st)"
    using assms(2) by (auto simp: fresh_def)
  have "snd (process_row e (Suc (length pre)) r st) = st"
    by (simp add: process_row_no_software_id assms(1))
  then have "{t \<in> set (graph (run_rows e 1 (pre @ r # post) init)). about (Suc (length pre)) t}
      = {t \<in> set (graph st). about (Suc (length pre)) t}"
    unfolding run_split st_def by (simp add: about_frozen)
  with fr assms(2) show ?thesis by auto
qed

text \<open>
  C6. \<^verbatim>\<open>row['software_id']\<close> is the first thing the loop body evaluates. A row
  without that column raises \<^verbatim>\<open>KeyError\<close> before any \<^verbatim>\<open>graph.add\<close> and before
  the reviewer cache is touched: the populator is unchanged, the message is recorded,
  and the loop goes on with the rows after it (which keep their row numbers). So the
  final graph has no triple with the row's review as subject, no \<^verbatim>\<open>hasReview\<close>
  triple pointing to it, and the three counts are those of the other rows.
\<close>

theorem C6_row_without_software_id_skipped:
  assumes "r ''software_id'' = None"
  shows "process_row e n r st = (Inl (KeyError ''software_id''), st)
    \<and> process_csv e (pre @ r # post) =
        process_rows e (length pre + 2) post
          (fst (process_csv e pre),
           snd (process_csv e pre) @ [(length pre + 1, KeyError ''software_id'')])
    \<and> triples (graph (fst (process_csv e (pre @ r # post))))
         (Some (review_uri (length pre + 1)), None, None) = []
    \<and> subjects (graph (fst (process_csv e (pre @ r # post))))
         (SW ''hasReview'') (review_uri (length pre + 1)) = []
    \<and> print_statistics (fst (process_csv e (pre @ [r]))) = print_statistics (fst (process_csv e pre))"
proof -
  have row: "process_row e m r s = (Inl (KeyError ''software_id''), s)" for m s
    by (rule process_row_no_software_id [where r=r, OF assms])
  have split: "process_csv e (pre @ r # post') =
        process_rows e (length pre + 2) post'
          (fst (process_csv e pre),
           snd (process_csv e pre) @ [(length pre + 1, KeyError ''software_id'')])" for post'
    by (cases "process_rows e 1 pre (init, [])")
       (simp add: process_csv_def process_rows_append row)
  have a: "\<not> about (Suc (length pre)) t"
    if "t \<in> set (graph (fst (process_csv e (pre @ r # post))))" for t
    using about_slice_skipped [where r=r, OF assms, of pre t e post] that by (auto simp: process_csv_run)
  have t1: "triples (graph (fst (process_csv e (pre @ r # post))))
         (Some (review_uri (length pre + 1)), None, None) = []"
    unfolding triples_def using a by (intro filter_empty) (auto simp: about_def)
  have t2: "subjects (graph (fst (process_csv e (pre @ r # post))))
         (SW ''hasReview'') (review_uri (length pre + 1)) = []"
    unfolding subjects_def triples_def using a by (subst filter_empty) (auto simp: about_def)
  show ?thesis using row split [of post] split [of "[]"] t1 t2 by simp
qed

theorem C6_witness:
  "row_without_software_id ''software_id'' = None
   \<and> process_row (clock (Date 2026 11 4)) 1 row_without_software_id init
       = (Inl (KeyError ''software_id''), init)
   \<and> print_statistics (fst (process_csv (clock (Date 2026 11 4)) ([] @ [row_without_software_id])))
       = print_statistics (fst (process_csv (clock (Date 2026 11 4)) []))"
proof -
  have h: "row_without_software_id ''software_id'' = None"
    by (simp add: row_without_software_id_def)
  from C6_row_without_software_id_skipped [where r=row_without_software_id, OF h, of "clock (Date 2026 11 4)" 1 init "[]" "[]"] h
  show ?thesis by blast
qed

lemma run_log_set:
  "set (run_log m rows) = {m + i | i. i < length rows \<and> \<not> row_ok (rows ! i)}"
proof (induction rows arbitrary: m)
  case Nil
  show ?case by simp
next
  case (Cons r rs)
  have "{m + i | i. i < length (r # rs) \<and> \<not> row_ok ((r # rs) ! i)} =
        (if row_ok r then {} else {m}) \<union> {Suc m + i | i. i < length rs \<and> \<not> row_ok (rs ! i)}"
    (is "?L = ?R")
  proof (intro set_eqI iffI)
    fix x assume "x \<in> ?L"
    then obtain i where i: "x = m + i" "i < length (r # rs)" "\<not> row_ok ((r # rs) ! i)" by auto
    then show "x \<in> ?R" by (cases i) auto
  next
    fix x assume "x \<in> ?R"
    then consider "x = m" "\<not> row_ok r"
      | i where "x = Suc m + i" "i < length rs" "\<not> row_ok (rs ! i)"
      by (auto split: if_splits)
    then show "x \<in> ?L"
    proof cases
      case 1
      then show ?thesis by (auto intro!: exI [of _ 0])
    next
      case 2
      then show ?thesis by (auto intro!: exI [of _ "Suc i"])
    qed
  qed
  then show ?case by (simp add: Cons)
qed

lemma logged_rows: "fst ` set (snd (process_csv e rows)) = set (run_log 1 rows)"
  using snd_process_rows [of e 1 rows init "[]"]
  by (simp add: process_csv_def flip: set_map)

lemma logged_iff:
  assumes "1 \<le> n" "n \<le> length rows"
  shows "n \<in> fst ` set (snd (process_csv e rows)) \<longleftrightarrow> \<not> row_ok (rows ! (n - 1))"
proof -
  have "n \<in> set (run_log 1 rows) \<longleftrightarrow> \<not> row_ok (rows ! (n - 1))"
  proof
    assume "n \<in> set (run_log 1 rows)"
    then obtain i where "n = 1 + i" "\<not> row_ok (rows ! i)" by (auto simp: run_log_set)
    then show "\<not> row_ok (rows ! (n - 1))" by simp
  next
    assume "\<not> row_ok (rows ! (n - 1))"
    with assms show "n \<in> set (run_log 1 rows)"
      by (auto simp: run_log_set intro!: exI [of _ "n - 1"])
  qed
  then show ?thesis by (simp add: logged_rows)
qed

lemma no_errors:
  assumes "\<forall>r\<in>set rows. row_ok r"
  shows "snd (process_csv e rows) = []"
proof -
  from assms have "set (run_log 1 rows) = {}" by (auto simp: run_log_set)
  then have "fst ` set (snd (process_csv e rows)) = {}" by (simp add: logged_rows)
  then show ?thesis by simp
qed

lemma rows_split:
  assumes "1 \<le> n" "n \<le> length rows"
  shows "rows = take (n - 1) rows @ rows ! (n - 1) # drop n rows"
    and "Suc (length (take (n - 1) rows)) = n"
  using assms id_take_nth_drop [of "n - 1" rows] by auto

lemma distinct_final: "distinct (graph (fst (process_csv e rows)))"
  by (simp add: process_csv_run distinct_run distinct_init)

lemma about_slice_nth:
  fixes e rows n
  assumes "1 \<le> n" "n \<le> length rows"
  defines "r \<equiv> rows ! (n - 1)"
  defines "st \<equiv> fst (process_csv e (take (n - 1) rows))"
  defines "G \<equiv> graph (fst (process_csv e rows))"
  shows about_nth_ok:
      "row_ok r \<Longrightarrow> {t \<in> set G. about n t} = set (review_attrs e n r) \<union> set (links n r st)"
    and about_nth_err:
      "\<not> row_ok r \<Longrightarrow> \<forall>t\<in>set G. about n t \<longrightarrow>
          fst (snd t) \<noteq> SW ''hasReview'' \<and> fst (snd t) \<noteq> SW ''madeBy''"
proof -
  note sp = rows_split [OF assms(1,2)]
  have G: "G = graph (run_rows e 1 (take (n - 1) rows @ r # drop n rows) init)"
    unfolding G_def r_def process_csv_run using sp(1) by simp
  show "{t \<in> set G. about n t} = set (review_attrs e n r) \<union> set (links n r st)" if "row_ok r"
    using about_slice_ok [where pre="take (n - 1) rows" and post="drop n rows" and e=e and r=r, OF that]
    unfolding G st_def process_csv_run sp(2) .
  show "\<forall>t\<in>set G. about n t \<longrightarrow>
          fst (snd t) \<noteq> SW ''hasReview'' \<and> fst (snd t) \<noteq> SW ''madeBy''" if "\<not> row_ok r"
    using about_slice_err [where pre="take (n - 1) rows" and post="drop n rows" and e=e and r=r, OF that]
    unfolding G sp(2) .
qed

lemma review_attrs_pred:
  assumes "t \<in> set (review_attrs e n r)"
  shows "fst (snd t) \<noteq> SW ''hasReview''" "fst (snd t) \<noteq> SW ''madeBy''"
    "fst (snd t) = SW ''data_avaliacao'' \<Longrightarrow>
       t = (review_uri n, SW ''data_avaliacao'', DateLiteral (date_of e n r))"
  using assms by (auto simp: review_attrs_def split: if_splits)

lemma slice_lists:
  assumes d: "distinct g"
    and sl: "{t \<in> set g. about n t} = set (review_attrs e n r) \<union> set (links n r st)"
  shows "subjects g (SW ''hasReview'') (review_uri n) = [software_uri (cell_of r ''software_id'')]"
    and "triples g (Some (review_uri n), Some (SW ''madeBy''), None) =
           [(review_uri n, SW ''madeBy'', reviewer_for st (key_of r))]"
    and "triples g (Some (review_uri n), Some (SW ''data_avaliacao''), None) =
           [(review_uri n, SW ''data_avaliacao'', DateLiteral (date_of e n r))]"
    and "set (triples g (Some (review_uri n), None, None)) =
           set (review_attrs e n r) \<union> {(review_uri n, SW ''madeBy'', reviewer_for st (key_of r))}"
    and "review_uri n \<in> set (subjects g RDF_type (SW ''Review''))"
proof -
  have mem: "t \<in> set g \<and> about n t \<longleftrightarrow> t \<in> set (review_attrs e n r) \<or> t \<in> set (links n r st)" for t
    using sl by blast
  have attr_subj: "t \<in> set (review_attrs e n r) \<Longrightarrow> fst t = review_uri n" for t
    using review_attrs_shape by blast
  have "{t \<in> set g. matches (None, Some (SW ''hasReview''), Some (review_uri n)) t} =
        {(software_uri (cell_of r ''software_id''), SW ''hasReview'', review_uri n)}"
  proof (intro set_eqI iffI)
    fix t assume "t \<in> {t \<in> set g. matches (None, Some (SW ''hasReview''), Some (review_uri n)) t}"
    then have "t \<in> set g \<and> about n t" and p: "fst (snd t) = SW ''hasReview''"
      by (auto simp: about_def)
    with mem have "t \<in> set (review_attrs e n r) \<or> t \<in> set (links n r st)" by blast
    with p review_attrs_pred(1) [of t e n r]
    show "t \<in> {(software_uri (cell_of r ''software_id''), SW ''hasReview'', review_uri n)}"
      by (auto simp: links_def)
  next
    fix t assume "t \<in> {(software_uri (cell_of r ''software_id''), SW ''hasReview'', review_uri n)}"
    then have t: "t = (software_uri (cell_of r ''software_id''), SW ''hasReview'', review_uri n)"
      by simp
    then have "t \<in> set (links n r st)" by (simp add: links_def)
    with mem have "t \<in> set g" by blast
    with t show "t \<in> {t \<in> set g. matches (None, Some (SW ''hasReview''), Some (review_uri n)) t}"
      by simp
  qed
  note f1 = filter_single [OF d this]
  show "subjects g (SW ''hasReview'') (review_uri n) = [software_uri (cell_of r ''software_id'')]"
    by (simp add: subjects_def triples_def f1)
  have "{t \<in> set g. matches (Some (review_uri n), Some (SW ''madeBy''), None) t} =
        {(review_uri n, SW ''madeBy'', reviewer_for st (key_of r))}"
  proof (intro set_eqI iffI)
    fix t assume "t \<in> {t \<in> set g. matches (Some (review_uri n), Some (SW ''madeBy''), None) t}"
    then have "t \<in> set g \<and> about n t" and p: "fst (snd t) = SW ''madeBy''"
      by (auto simp: about_def)
    with mem have "t \<in> set (review_attrs e n r) \<or> t \<in> set (links n r st)" by blast
    with p review_attrs_pred(2) [of t e n r]
    show "t \<in> {(review_uri n, SW ''madeBy'', reviewer_for st (key_of r))}"
      by (auto simp: links_def)
  next
    fix t assume "t \<in> {(review_uri n, SW ''madeBy'', reviewer_for st (key_of r))}"
    then have t: "t = (review_uri n, SW ''madeBy'', reviewer_for st (key_of r))" by simp
    then have "t \<in> set (links n r st)" by (simp add: links_def)
    with mem have "t \<in> set g" by blast
    with t show "t \<in> {t \<in> set g. matches (Some (review_uri n), Some (SW ''madeBy''), None) t}"
      by simp
  qed
  note f2 = filter_single [OF d this]
  show "triples g (Some (review_uri n), Some (SW ''madeBy''), None) =
           [(review_uri n, SW ''madeBy'', reviewer_for st (key_of r))]"
    by (simp add: triples_def f2)
  have "{t \<in> set g. matches (Some (review_uri n), Some (SW ''data_avaliacao''), None) t} =
        {(review_uri n, SW ''data_avaliacao'', DateLiteral (date_of e n r))}"
  proof (intro set_eqI iffI)
    fix t assume "t \<in> {t \<in> set g. matches (Some (review_uri n), Some (SW ''data_avaliacao''), None) t}"
    then have "t \<in> set g \<and> about n t" and p: "fst (snd t) = SW ''data_avaliacao''"
      by (auto simp: about_def)
    with mem have "t \<in> set (review_attrs e n r) \<or> t \<in> set (links n r st)" by blast
    with p review_attrs_pred(3) [of t e n r]
    show "t \<in> {(review_uri n, SW ''data_avaliacao'', DateLiteral (date_of e n r))}"
      by (auto simp: links_def)
  next
    fix t assume "t \<in> {(review_uri n, SW ''data_avaliacao'', DateLiteral (date_of e n r))}"
    then have t: "t = (review_uri n, SW ''data_avaliacao'', DateLiteral (date_of e n r))" by simp
    then have "t \<in> set (review_attrs e n r)" by (simp add: review_attrs_def)
    with mem have "t \<in> set g" by blast
    with t show "t \<in> {t \<in> set g. matches (Some (review_uri n), Some (SW ''data_avaliacao''), None) t}"
      by simp
  qed
  note f3 = filter_single [OF d this]
  show "triples g (Some (review_uri n), Some (SW ''data_avaliacao''), None) =
           [(review_uri n, SW ''data_avaliacao'', DateLiteral (date_of e n r))]"
    by (simp add: triples_def f3)
  show "set (triples g (Some (review_uri n), None, None)) =
           set (review_attrs e n r) \<union> {(review_uri n, SW ''madeBy'', reviewer_for st (key_of r))}"
  proof (intro set_eqI iffI)
    fix t assume "t \<in> set (triples g (Some (review_uri n), None, None))"
    then have "t \<in> set g \<and> about n t" and s: "fst t = review_uri n"
      by (auto simp: triples_def about_def)
    with mem have "t \<in> set (review_attrs e n r) \<or> t \<in> set (links n r st)" by blast
    with s show "t \<in> set (review_attrs e n r) \<union> {(review_uri n, SW ''madeBy'', reviewer_for st (key_of r))}"
      by (auto simp: links_def)
  next
    fix t assume "t \<in> set (review_attrs e n r) \<union> {(review_uri n, SW ''madeBy'', reviewer_for st (key_of r))}"
    then consider "t \<in> set (review_attrs e n r)"
      | "t = (review_uri n, SW ''madeBy'', reviewer_for st (key_of r))" by auto
    then have "(t \<in> set (review_attrs e n r) \<or> t \<in> set (links n r st)) \<and> fst t = review_uri n"
    proof cases
      case 1
      with attr_subj [of t] show ?thesis by simp
    next
      case 2
      then show ?thesis by (simp add: links_def)
    qed
    with mem [of t] have "t \<in> set g" "fst t = review_uri n" by blast+
    then show "t \<in> set (triples g (Some (review_uri n), None, None))"
      by (simp add: triples_def)
  qed
  have "(review_uri n, RDF_type, SW ''Review'') \<in> set (review_attrs e n r)"
    by (rule type_in_attrs)
  with mem have "(review_uri n, RDF_type, SW ''Review'') \<in> set g" by blast
  then show "review_uri n \<in> set (subjects g RDF_type (SW ''Review''))"
    by (force simp: subjects_def triples_def)
qed

lemma slice_lists_err:
  assumes "\<forall>t\<in>set g. about n t \<longrightarrow> fst (snd t) \<noteq> SW ''hasReview'' \<and> fst (snd t) \<noteq> SW ''madeBy''"
  shows "subjects g (SW ''hasReview'') (review_uri n) = []"
    and "triples g (Some (review_uri n), Some (SW ''madeBy''), None) = []"
proof -
  show "subjects g (SW ''hasReview'') (review_uri n) = []"
    unfolding subjects_def triples_def using assms
    by (subst filter_empty) (auto simp: about_def)
  show "triples g (Some (review_uri n), Some (SW ''madeBy''), None) = []"
    unfolding triples_def using assms
    by (intro filter_empty) (auto simp: about_def)
qed

lemma typed_review_subjects:
  "set (subjects (graph (fst (process_csv e rows))) RDF_type (SW ''Review''))
     \<subseteq> review_uri ` {1..length rows}"
proof
  fix s assume "s \<in> set (subjects (graph (fst (process_csv e rows))) RDF_type (SW ''Review''))"
  then obtain t where t: "t \<in> set (graph (run_rows e 1 rows init))"
    "fst (snd t) = RDF_type" "snd (snd t) = SW ''Review''" "fst t = s"
    by (auto simp: subjects_def triples_def process_csv_run)
  with typed_reviews_run [of rows e] obtain k where "1 \<le> k" "k < 1 + length rows" "s = review_uri k"
    unfolding typed_reviews_def by blast
  then show "s \<in> review_uri ` {1..length rows}" by auto
qed

lemma typed_review_count:
  assumes "\<forall>r\<in>set rows. row_ok r"
  shows "length (subjects (graph (fst (process_csv e rows))) RDF_type (SW ''Review'')) = length rows"
proof -
  define G where "G = graph (fst (process_csv e rows))"
  define T where "T = {t \<in> set G. matches (None, Some RDF_type, Some (SW ''Review'')) t}"
  have d: "distinct G" unfolding G_def by (rule distinct_final)
  have "T = (\<lambda>k. (review_uri k, RDF_type, SW ''Review'')) ` {1..length rows}"
  proof (intro set_eqI iffI)
    fix t assume "t \<in> T"
    then have t: "t \<in> set G" "fst (snd t) = RDF_type" "snd (snd t) = SW ''Review''"
      by (auto simp: T_def)
    then have "fst t \<in> set (subjects G RDF_type (SW ''Review''))"
      by (force simp: subjects_def triples_def)
    with typed_review_subjects [of e rows] obtain k where k: "k \<in> {1..length rows}" "fst t = review_uri k"
      unfolding G_def by blast
    with t have "t = (review_uri k, RDF_type, SW ''Review'')" by (simp add: prod_eq_iff)
    with k show "t \<in> (\<lambda>k. (review_uri k, RDF_type, SW ''Review'')) ` {1..length rows}" by blast
  next
    fix t assume "t \<in> (\<lambda>k. (review_uri k, RDF_type, SW ''Review'')) ` {1..length rows}"
    then obtain k where k: "1 \<le> k" "k \<le> length rows" and t: "t = (review_uri k, RDF_type, SW ''Review'')"
      by auto
    from k assms have ok: "row_ok (rows ! (k - 1))" by simp
    from about_nth_ok [OF k ok, of e] type_in_attrs [of k e "rows ! (k - 1)"]
    have "(review_uri k, RDF_type, SW ''Review'') \<in> set G" unfolding G_def by blast
    with t show "t \<in> T" by (simp add: T_def)
  qed
  moreover have "inj_on (\<lambda>k. (review_uri k, RDF_type, SW ''Review'')) {1..length rows}"
    by (rule inj_onI) simp
  ultimately have "card T = length rows" by (simp add: card_image)
  moreover have "length (filter (matches (None, Some RDF_type, Some (SW ''Review''))) G) = card T"
    unfolding T_def using d by (simp add: distinct_card [symmetric] del: matches_simps)
  ultimately show ?thesis by (simp add: subjects_def triples_def G_def)
qed

text \<open>
  C3. When every row is valid (the required columns are present and the date cell is a
  string, so that nothing is raised), no message is printed, the final graph has
  exactly as many subjects typed Review as there are rows, and that is the number
  \<^verbatim>\<open>print_statistics\<close> reports. The triples whose subject is the review of row
  \<open>n\<close> are the type triple and the attribute triples built from row \<open>n\<close> itself,
  plus its one \<^verbatim>\<open>madeBy\<close> triple.
\<close>

theorem C3_one_review_per_valid_row:
  assumes "\<forall>r\<in>set rows. row_ok r"
  shows "snd (process_csv e rows) = []
    \<and> length (subjects (graph (fst (process_csv e rows))) RDF_type (SW ''Review'')) = length rows
    \<and> fst (snd (print_statistics (fst (process_csv e rows)))) = length rows
    \<and> (\<forall>n. 1 \<le> n \<and> n \<le> length rows \<longrightarrow>
          (\<exists>rv. set (triples (graph (fst (process_csv e rows))) (Some (review_uri n), None, None))
                 = set (review_attrs e n (rows ! (n - 1))) \<union> {(review_uri n, SW ''madeBy'', rv)}))"
proof -
  have "\<exists>rv. set (triples (graph (fst (process_csv e rows))) (Some (review_uri n), None, None))
                 = set (review_attrs e n (rows ! (n - 1))) \<union> {(review_uri n, SW ''madeBy'', rv)}"
    if n: "1 \<le> n" "n \<le> length rows" for n
  proof -
    from n assms have ok: "row_ok (rows ! (n - 1))" by simp
    from slice_lists(4) [OF distinct_final about_nth_ok [OF n ok]] show ?thesis by blast
  qed
  then show ?thesis
    using no_errors [OF assms] typed_review_count [OF assms]
    by (simp add: print_statistics_def Let_def)
qed

theorem C3_witness:
  "row_ok (full_row ''7'' ''2024-01-15'') \<and> row_ok (full_row ''8'' ''2024-02-29'')
   \<and> snd (process_csv (clock (Date 2026 11 4))
             [full_row ''7'' ''2024-01-15'', full_row ''8'' ''2024-02-29'']) = []
   \<and> fst (snd (print_statistics (fst (process_csv (clock (Date 2026 11 4))
             [full_row ''7'' ''2024-01-15'', full_row ''8'' ''2024-02-29''])))) = 2
   \<and> (\<exists>rv. set (triples (graph (fst (process_csv (clock (Date 2026 11 4))
                    [full_row ''7'' ''2024-01-15'', full_row ''8'' ''2024-02-29''])))
                 (Some (review_uri 2), None, None))
           = set (review_attrs (clock (Date 2026 11 4)) 2 (full_row ''8'' ''2024-02-29''))
             \<union> {(review_uri 2, SW ''madeBy'', rv)})"
proof -
  have h: "\<forall>r\<in>set [full_row ''7'' ''2024-01-15'', full_row ''8'' ''2024-02-29'']. row_ok r"
    by (simp add: full_row_ok)
  note th = C3_one_review_per_valid_row [OF h, of "clock (Date 2026 11 4)"]
  from th have a: "snd (process_csv (clock (Date 2026 11 4))
             [full_row ''7'' ''2024-01-15'', full_row ''8'' ''2024-02-29'']) = []"
    and b: "fst (snd (print_statistics (fst (process_csv (clock (Date 2026 11 4))
             [full_row ''7'' ''2024-01-15'', full_row ''8'' ''2024-02-29''])))) = 2"
    by simp_all
  from th have "\<forall>n. 1 \<le> n \<and> n \<le> length [full_row ''7'' ''2024-01-15'', full_row ''8'' ''2024-02-29''] \<longrightarrow>
          (\<exists>rv. set (triples (graph (fst (process_csv (clock (Date 2026 11 4))
                   [full_row ''7'' ''2024-01-15'', full_row ''8'' ''2024-02-29''])))
                   (Some (review_uri n), None, None))
                 = set (review_attrs (clock (Date 2026 11 4)) n
                     ([full_row ''7'' ''2024-01-15'', full_row ''8'' ''2024-02-29''] ! (n - 1)))
                   \<union> {(review_uri n, SW ''madeBy'', rv)})"
    by (elim conjE)
  from this [rule_format, of 2] have c: "\<exists>rv. set (triples (graph (fst (process_csv (clock (Date 2026 11 4))
                    [full_row ''7'' ''2024-01-15'', full_row ''8'' ''2024-02-29''])))
                 (Some (review_uri 2), None, None))
           = set (review_attrs (clock (Date 2026 11 4)) 2 (full_row ''8'' ''2024-02-29''))
             \<union> {(review_uri 2, SW ''madeBy'', rv)}"
    by simp
  from a b c full_row_ok show ?thesis by blast
qed

text \<open>
  C5. A \<^verbatim>\<open>data_avaliacao\<close> string that \<^verbatim>\<open>strptime\<close> rejects raises
  \<^verbatim>\<open>ValueError\<close>, which the inner handler replaces by the current date: the
  conversion returns the clock's date and raises nothing. For a row whose other
  required columns are present the whole row is then processed without error: no
  message is recorded for it, its Review is in the final graph, and the Review's only
  \<^verbatim>\<open>data_avaliacao\<close> triple is the date-typed literal of the date the clock showed
  while the row was processed.
\<close>

theorem C5_invalid_date_replaced_by_current_date:
  assumes "r ''data_avaliacao'' = Some (PyStr s)" and "strptime e s = None"
    and "row_ok r"
  shows "convert_date e n (PyStr s) st = (Inr (now e n), st)
    \<and> fst (process_row e n r st) = Inr ()
    \<and> Suc (length pre) \<notin> fst ` set (snd (process_csv e (pre @ r # post)))
    \<and> review_uri (Suc (length pre))
         \<in> set (subjects (graph (fst (process_csv e (pre @ r # post)))) RDF_type (SW ''Review''))
    \<and> triples (graph (fst (process_csv e (pre @ r # post))))
         (Some (review_uri (Suc (length pre))), Some (SW ''data_avaliacao''), None)
       = [(review_uri (Suc (length pre)), SW ''data_avaliacao'',
           DateLiteral (now e (Suc (length pre))))]"
proof -
  define rows where "rows = pre @ r # post"
  define m where "m = Suc (length pre)"
  have m: "1 \<le> m" "m \<le> length rows" and r: "rows ! (m - 1) = r"
    by (simp_all add: rows_def m_def)
  have ok: "row_ok (rows ! (m - 1))" using assms(3) r by simp
  have d: "date_of e m r = now e m"
    using assms(1,2) by (simp add: date_of_def cell_of_def row_get_def)
  note sl = slice_lists [OF distinct_final about_nth_ok [OF m ok, of e]]
  have 1: "convert_date e n (PyStr s) st = (Inr (now e n), st)"
    using assms(2) by (simp add: convert_date_def returnA_def)
  have 2: "fst (process_row e n r st) = Inr ()"
    using assms(3) by (simp add: step_result)
  have 3: "m \<notin> fst ` set (snd (process_csv e rows))"
    using ok by (simp add: logged_iff [OF m])
  have 4: "review_uri m \<in> set (subjects (graph (fst (process_csv e rows))) RDF_type (SW ''Review''))"
    by (rule sl(5))
  have 5: "triples (graph (fst (process_csv e rows))) (Some (review_uri m), Some (SW ''data_avaliacao''), None)
       = [(review_uri m, SW ''data_avaliacao'', DateLiteral (now e m))]"
    using sl(3) unfolding r d .
  from 1 2 3 4 5 show ?thesis unfolding rows_def m_def by blast
qed

theorem C5_witness:
  "invalid_date_row ''data_avaliacao'' = Some (PyStr ''2024-13-40'')
   \<and> strptime (clock (Date 2026 11 4)) ''2024-13-40'' = None
   \<and> row_ok invalid_date_row
   \<and> triples (graph (fst (process_csv (clock (Date 2026 11 4)) ([] @ invalid_date_row # []))))
         (Some (review_uri (Suc (length ([] :: row list)))), Some (SW ''data_avaliacao''), None)
       = [(review_uri (Suc (length ([] :: row list))), SW ''data_avaliacao'',
           DateLiteral (now (clock (Date 2026 11 4)) (Suc (length ([] :: row list)))))]"
proof -
  have h1: "invalid_date_row ''data_avaliacao'' = Some (PyStr ''2024-13-40'')"
    by (simp add: invalid_date_row_def full_row_def)
  have h2: "strptime (clock (Date 2026 11 4)) ''2024-13-40'' = None"
    by (simp add: clock_def strptime_Ymd_invalid)
  have h3: "row_ok invalid_date_row"
    by (simp add: invalid_date_row_def full_row_ok)
  from C5_invalid_date_replaced_by_current_date
         [where r = invalid_date_row and pre = "[]" and post = "[]", OF h1 h2 h3] h1 h2 h3
  show ?thesis by blast
qed

text \<open>
  C4, as stated: after any input, skipped rows included, every subject typed Review
  has exactly one \<^verbatim>\<open>hasReview\<close> and exactly one \<^verbatim>\<open>madeBy\<close> triple. A file whose
  header has no \<^verbatim>\<open>fonte\<close> column refutes it: the Review type triple of line 125 is
  added before \<^verbatim>\<open>row['fonte']\<close> raises on line 126, nothing is rolled back, and the
  two relationship triples of lines 139 and 140 are never reached.
\<close>

theorem C4_counterexample:
  "subjects (graph (fst (process_csv (clock (Date 2026 11 4)) [row_without_fonte])))
      RDF_type (SW ''Review'') = [review_uri 1]
   \<and> subjects (graph (fst (process_csv (clock (Date 2026 11 4)) [row_without_fonte])))
      (SW ''hasReview'') (review_uri 1) = []
   \<and> triples (graph (fst (process_csv (clock (Date 2026 11 4)) [row_without_fonte])))
      (Some (review_uri 1), Some (SW ''madeBy''), None) = []"
proof -
  define G where "G = graph (fst (process_csv (clock (Date 2026 11 4)) [row_without_fonte]))"
  have nok: "\<not> row_ok ([row_without_fonte] ! (1 - 1))"
    by (simp add: row_ok_def review_ok_def row_without_fonte_def)
  have reach: "reaches_review row_without_fonte"
    by (simp add: reaches_review_def reviewer_ok_def date_ok_def row_without_fonte_def)
  have d: "distinct G" unfolding G_def by (rule distinct_final)
  have mem: "(review_uri 1, RDF_type, SW ''Review'') \<in> set G"
    unfolding G_def using step_typed [OF reach, of 1 "clock (Date 2026 11 4)" init]
    by (simp add: process_csv_run)
  have sub: "set (subjects G RDF_type (SW ''Review'')) \<subseteq> {review_uri 1}"
    using typed_review_subjects [of "clock (Date 2026 11 4)" "[row_without_fonte]"]
    unfolding G_def by simp
  have "{t \<in> set G. matches (None, Some RDF_type, Some (SW ''Review'')) t}
      = {(review_uri 1, RDF_type, SW ''Review'')}"
  proof (intro set_eqI iffI)
    fix t assume "t \<in> {t \<in> set G. matches (None, Some RDF_type, Some (SW ''Review'')) t}"
    then have t: "t \<in> set G" "fst (snd t) = RDF_type" "snd (snd t) = SW ''Review''" by auto
    then have "fst t \<in> set (subjects G RDF_type (SW ''Review''))"
      by (force simp: subjects_def triples_def)
    with sub have "fst t = review_uri 1" by auto
    with t show "t \<in> {(review_uri 1, RDF_type, SW ''Review'')}" by (simp add: prod_eq_iff)
  next
    fix t assume "t \<in> {(review_uri 1, RDF_type, SW ''Review'')}"
    with mem show "t \<in> {t \<in> set G. matches (None, Some RDF_type, Some (SW ''Review'')) t}"
      by simp
  qed
  note f = filter_single [OF d this]
  have 1: "subjects G RDF_type (SW ''Review'') = [review_uri 1]"
    by (simp add: subjects_def triples_def f)
  note e = slice_lists_err [OF about_nth_err [where rows = "[row_without_fonte]" and n = 1
        and e = "clock (Date 2026 11 4)", OF _ _ nok, simplified]]
  from 1 e show ?thesis unfolding G_def by simp
qed

text \<open>
  C4, amended. Every subject typed Review is the review of one input row. If that row
  was processed without error, its Review is the object of exactly one
  \<^verbatim>\<open>hasReview\<close> triple, from the row's Software, and the subject of exactly one
  \<^verbatim>\<open>madeBy\<close> triple. If the row was skipped, whatever it left in the graph has
  neither a \<^verbatim>\<open>hasReview\<close> nor a \<^verbatim>\<open>madeBy\<close> triple. A row was skipped exactly
  when a message was recorded for its number.
\<close>

theorem C4_reviews_of_processed_rows_linked:
  assumes "1 \<le> n" and "n \<le> length rows"
  shows "set (subjects (graph (fst (process_csv e rows))) RDF_type (SW ''Review''))
           \<subseteq> review_uri ` {1..length rows}
    \<and> (n \<in> fst ` set (snd (process_csv e rows)) \<longleftrightarrow> \<not> row_ok (rows ! (n - 1)))
    \<and> (if row_ok (rows ! (n - 1))
        then review_uri n \<in> set (subjects (graph (fst (process_csv e rows))) RDF_type (SW ''Review''))
           \<and> subjects (graph (fst (process_csv e rows))) (SW ''hasReview'') (review_uri n)
               = [software_uri (cell_of (rows ! (n - 1)) ''software_id'')]
           \<and> triples (graph (fst (process_csv e rows))) (Some (review_uri n), Some (SW ''madeBy''), None)
               = [(review_uri n, SW ''madeBy'',
                   reviewer_for (fst (process_csv e (take (n - 1) rows))) (key_of (rows ! (n - 1))))]
        else subjects (graph (fst (process_csv e rows))) (SW ''hasReview'') (review_uri n) = []
           \<and> triples (graph (fst (process_csv e rows))) (Some (review_uri n), Some (SW ''madeBy''), None)
               = [])"
proof (cases "row_ok (rows ! (n - 1))")
  case True
  note sl = slice_lists [OF distinct_final about_nth_ok [OF assms True, of e]]
  from sl(1,2,5) True typed_review_subjects [of e rows] logged_iff [OF assms, of e]
  show ?thesis by simp
next
  case False
  note sl = slice_lists_err [OF about_nth_err [OF assms False, of e]]
  from sl False typed_review_subjects [of e rows] logged_iff [OF assms, of e]
  show ?thesis by simp
qed

theorem C4_witness:
  "1 \<le> (1::nat) \<and> 1 \<le> length [full_row ''7'' ''2024-01-15'']
   \<and> row_ok ([full_row ''7'' ''2024-01-15''] ! (1 - 1))
   \<and> subjects (graph (fst (process_csv (clock (Date 2026 11 4)) [full_row ''7'' ''2024-01-15''])))
        (SW ''hasReview'') (review_uri 1)
      = [software_uri (cell_of ([full_row ''7'' ''2024-01-15''] ! (1 - 1)) ''software_id'')]"
proof -
  have h1: "1 \<le> (1::nat)" and h2: "1 \<le> length [full_row ''7'' ''2024-01-15'']" by simp_all
  have h3: "row_ok ([full_row ''7'' ''2024-01-15''] ! (1 - 1))" by (simp add: full_row_ok)
  from C4_reviews_of_processed_rows_linked [OF h1 h2, of "clock (Date 2026 11 4)"] h3
  show ?thesis by simp
qed

lemma software_uri_eq [simp]: "software_uri c = software_uri d \<longleftrightarrow> py_str c = py_str d"
  by (simp add: software_uri_def)

lemma literal_eq [simp]: "literal c = literal d \<longleftrightarrow> py_str c = py_str d"
  by (simp add: literal_def)

lemma software_attr_row_triples:
  assumes "t \<in> set (row_triples e m r s)" "software_attr u t"
  shows "t \<in> set (software_part r s)"
  using assms reviewer_part_shape [of t r s] review_attrs_shape [of t e m r]
  by (auto simp: row_triples_def links_def software_attr_def reviewer_attr_def review_attr_def)

lemma software_attr_subject: "software_attr u t \<Longrightarrow> software_attr v t \<Longrightarrow> u = v"
  by (simp add: software_attr_def)

lemma step_software_slice:
  "{t \<in> set (graph (snd (process_row e m r s))). software_attr u t} =
   {t \<in> set (graph s). software_attr u t} \<union>
   (if r ''software_id'' \<noteq> None \<and> software_uri (cell_of r ''software_id'') = u
       \<and> (u, RDF_type, SW ''Software'') \<notin> set (graph s)
    then set (software_triples r) else {})"
proof (cases "r ''software_id'' = None")
  case True
  then show ?thesis by (simp add: process_row_no_software_id)
next
  case False
  define s' where "s' = snd (process_row e m r s)"
  have A: "set (graph s) \<subseteq> set (graph s')"
    unfolding s'_def by (rule step_mono)
  have B: "set (graph s') \<subseteq> set (graph s) \<union> set (row_triples e m r s)"
    unfolding s'_def by (rule step_new)
  have C: "set (software_part r s) \<subseteq> set (graph s')"
    unfolding s'_def using False by (rule step_software)
  have D: "t \<in> set (software_part r s)" if "t \<in> set (graph s')" "t \<notin> set (graph s)" "software_attr u t" for t
    using that B software_attr_row_triples [of t e m r s u] by blast
  have E: "u = software_uri (cell_of r ''software_id'')"
    if "t \<in> set (software_part r s)" "software_attr u t" for t
    using software_part_shape [OF that(1)] that(2) by (rule software_attr_subject [rotated])
  have F: "software_attr (software_uri (cell_of r ''software_id'')) t"
    if "t \<in> set (software_part r s)" for t
    using that by (rule software_part_shape)
  show ?thesis
  proof (cases "software_uri (cell_of r ''software_id'') = u
       \<and> (u, RDF_type, SW ''Software'') \<notin> set (graph s)")
    case True
    then have sp: "software_part r s = software_triples r"
      by (auto simp: software_part_def)
    from False True have cond: "r ''software_id'' \<noteq> None \<and> software_uri (cell_of r ''software_id'') = u
       \<and> (u, RDF_type, SW ''Software'') \<notin> set (graph s)" by simp
    have "{t \<in> set (graph s'). software_attr u t}
        = {t \<in> set (graph s). software_attr u t} \<union> set (software_triples r)"
      using A C D F True unfolding sp by blast
    then show ?thesis unfolding s'_def if_P [OF cond] .
  next
    case no: False
    have "t \<in> set (graph s)" if "t \<in> set (graph s')" "software_attr u t" for t
    proof (rule ccontr)
      assume n: "t \<notin> set (graph s)"
      from D [OF that(1) n that(2)] have m: "t \<in> set (software_part r s)" .
      from E [OF m that(2)] have u: "u = software_uri (cell_of r ''software_id'')" .
      from m have "software_part r s \<noteq> []" by auto
      then have "(software_uri (cell_of r ''software_id''), RDF_type, SW ''Software'') \<notin> set (graph s)"
        by (auto simp: software_part_def split: if_splits)
      with u no show False by simp
    qed
    with A have "{t \<in> set (graph s'). software_attr u t} = {t \<in> set (graph s). software_attr u t}"
      by blast
    moreover from no have "\<not> (r ''software_id'' \<noteq> None \<and> software_uri (cell_of r ''software_id'') = u
       \<and> (u, RDF_type, SW ''Software'') \<notin> set (graph s))" by simp
    ultimately show ?thesis unfolding s'_def by (simp only: if_False Un_empty_right)
  qed
qed

lemma software_slice_run_other:
  assumes "\<forall>p\<in>set rows. \<forall>d. p ''software_id'' = Some d \<longrightarrow> py_str d \<noteq> py_str c"
  shows "{t \<in> set (graph (run_rows e n rows s)). software_attr (software_uri c) t}
       = {t \<in> set (graph s). software_attr (software_uri c) t}"
proof -
  have "{t \<in> set (graph (snd (process_row e m p s'))). software_attr (software_uri c) t}
       = {t \<in> set (graph s). software_attr (software_uri c) t}"
    if "p \<in> set rows"
      and "{t \<in> set (graph s'). software_attr (software_uri c) t}
         = {t \<in> set (graph s). software_attr (software_uri c) t}" for m p s'
  proof -
    have "\<not> (p ''software_id'' \<noteq> None \<and> software_uri (cell_of p ''software_id'') = software_uri c
        \<and> (software_uri c, RDF_type, SW ''Software'') \<notin> set (graph s'))"
      using assms that(1) by (cases "p ''software_id''") (auto simp: cell_of_def row_get_def)
    then show ?thesis
      unfolding step_software_slice if_not_P [OF \<open>\<not> _\<close>] using that(2) by simp
  qed
  from run_rows_inv [where P = "\<lambda>_ s'. {t \<in> set (graph s'). software_attr (software_uri c) t}
       = {t \<in> set (graph s). software_attr (software_uri c) t}" and e = e and rows = rows
       and n = n and st = s, OF _ this]
  show ?thesis by simp
qed

lemma software_slice_run_present:
  assumes "(u, RDF_type, SW ''Software'') \<in> set (graph s)"
  shows "{t \<in> set (graph (run_rows e n rows s)). software_attr u t}
       = {t \<in> set (graph s). software_attr u t}"
proof -
  let ?P = "\<lambda>(_::nat) s'. (u, RDF_type, SW ''Software'') \<in> set (graph s')
       \<and> {t \<in> set (graph s'). software_attr u t} = {t \<in> set (graph s). software_attr u t}"
  have "?P (Suc m) (snd (process_row e m p s'))" if "?P m s'" for m p s'
    using that step_mono [of s' e m p] unfolding step_software_slice by auto
  from run_rows_inv [where P = ?P and e = e and rows = rows and n = n and st = s, OF _ this]
    assms
  show ?thesis by simp
qed

lemma software_slice_init: "{t \<in> set (graph init). software_attr u t} = {}"
  using init_schema schema_not_software_attr by blast

lemma software_slice_final:
  assumes "r ''software_id'' = Some c"
    and "\<forall>p\<in>set pre. \<forall>d. p ''software_id'' = Some d \<longrightarrow> py_str d \<noteq> py_str c"
  shows "{t \<in> set (graph (fst (process_csv e (pre @ r # post)))). software_attr (software_uri c) t}
       = set (software_triples r)"
proof -
  define st where "st = run_rows e 1 pre init"
  define s1 where "s1 = snd (process_row e (Suc (length pre)) r st)"
  have c: "cell_of r ''software_id'' = c"
    using assms(1) by (simp add: cell_of_def row_get_def)
  have 0: "{t \<in> set (graph st). software_attr (software_uri c) t} = {}"
    unfolding st_def software_slice_run_other [OF assms(2)] by (rule software_slice_init)
  have "software_attr (software_uri c) (software_uri c, RDF_type, SW ''Software'')"
    by (simp add: software_attr_def)
  with 0 have nt: "(software_uri c, RDF_type, SW ''Software'') \<notin> set (graph st)" by blast
  have 1: "{t \<in> set (graph s1). software_attr (software_uri c) t} = set (software_triples r)"
    unfolding s1_def step_software_slice 0 using nt assms(1) c by simp
  have "(software_uri c, RDF_type, SW ''Software'') \<in> set (software_triples r)"
    by (simp add: software_triples_def c Let_def)
  with 1 have ty: "(software_uri c, RDF_type, SW ''Software'') \<in> set (graph s1)" by blast
  have "graph (fst (process_csv e (pre @ r # post)))
      = graph (run_rows e (Suc (Suc (length pre))) post s1)"
    unfolding s1_def st_def by (simp only: process_csv_run run_split)
  then show ?thesis
    using software_slice_run_present [OF ty, of e "Suc (Suc (length pre))" post] 1 by simp
qed

lemma software_triples_id:
  assumes "t \<in> set (software_triples r)" "fst (snd t) = SW ''software_id''"
  shows "\<exists>d. t = (software_uri d, SW ''software_id'', literal d)"
  using assms by (auto simp: software_triples_def Let_def split: if_splits)

lemma id_triples_init: "id_triples init"
  unfolding id_triples_def using init_schema by (fastforce simp: is_schema_triple_def)

lemma id_triples_step:
  assumes "id_triples s"
  shows "id_triples (snd (process_row e m r s))"
  unfolding id_triples_def
proof (intro ballI impI)
  fix t assume t: "t \<in> set (graph (snd (process_row e m r s)))" and p: "fst (snd t) = SW ''software_id''"
  show "\<exists>d. t = (software_uri d, SW ''software_id'', literal d)"
  proof (cases "t \<in> set (graph s)")
    case True
    with assms p show ?thesis unfolding id_triples_def by blast
  next
    case False
    with t step_new [of e m r s] have rt: "t \<in> set (row_triples e m r s)" by blast
    from p have "software_attr (fst t) t" by (simp add: software_attr_def)
    from software_attr_row_triples [OF rt this] have "t \<in> set (software_triples r)"
      by (auto simp: software_part_def split: if_splits)
    from software_triples_id [OF this p] show ?thesis .
  qed
qed

lemma id_triples_final: "id_triples (fst (process_csv e rows))"
  using run_rows_inv [where P = "\<lambda>_ s. id_triples s" and e = e and rows = rows and n = 1 and st = init]
  by (simp add: process_csv_run id_triples_init id_triples_step)

lemma software_triples_set:
  "set (software_triples r) =
     {(software_uri (cell_of r ''software_id''), RDF_type, SW ''Software''),
      (software_uri (cell_of r ''software_id''), SW ''software_id'', literal (cell_of r ''software_id'')),
      (software_uri (cell_of r ''software_id''), SW ''name'', literal (name_of r))}
     \<union> (if truthy (cell_of r ''pagina'')
        then {(software_uri (cell_of r ''software_id''), SW ''pagina'', literal (cell_of r ''pagina''))}
        else {})"
  by (auto simp: software_triples_def Let_def)

lemma slice_pred:
  assumes "{t \<in> set g. software_attr u t} = T"
    and "p = SW ''software_id'' \<or> p = SW ''name'' \<or> p = SW ''pagina''"
  shows "{t \<in> set g. matches (Some u, Some p, None) t} = {t \<in> T. fst (snd t) = p}"
  unfolding assms(1) [symmetric] using assms(2) by (auto simp: software_attr_def)

lemma filter_none: "{t \<in> set g. P t} = {} \<Longrightarrow> filter P g = []"
  by (rule filter_empty) blast

lemma software_facts:
  fixes e pre r post c
  defines "G \<equiv> graph (fst (process_csv e (pre @ r # post)))"
  assumes id: "r ''software_id'' = Some c"
    and first: "\<forall>p\<in>set pre. \<forall>d. p ''software_id'' = Some d \<longrightarrow> py_str d \<noteq> py_str c"
  shows software_id_subject: "subjects G (SW ''software_id'') (literal c) = [software_uri c]"
    and software_typed_once:
      "filter (\<lambda>s. (s, SW ''software_id'', literal c) \<in> set G) (subjects G RDF_type (SW ''Software''))
         = [software_uri c]"
    and software_name:
      "triples G (Some (software_uri c), Some (SW ''name''), None)
         = [(software_uri c, SW ''name'', literal (name_of r))]"
    and software_pagina:
      "triples G (Some (software_uri c), Some (SW ''pagina''), None)
         = (if truthy (cell_of r ''pagina'')
            then [(software_uri c, SW ''pagina'', literal (cell_of r ''pagina''))] else [])"
proof -
  have c: "cell_of r ''software_id'' = c"
    using id by (simp add: cell_of_def row_get_def)
  have d: "distinct G" unfolding G_def by (rule distinct_final)
  have S: "{t \<in> set G. software_attr (software_uri c) t} = set (software_triples r)"
    unfolding G_def using id first by (rule software_slice_final)
  have I: "\<exists>d. t = (software_uri d, SW ''software_id'', literal d)"
    if "t \<in> set G" "fst (snd t) = SW ''software_id''" for t
    using id_triples_final [of e "pre @ r # post"] that unfolding id_triples_def G_def by blast
  have sub: "set (software_triples r) \<subseteq> set G" using S by blast
  have ty: "(software_uri c, RDF_type, SW ''Software'') \<in> set G"
    using sub by (auto simp: software_triples_set c)
  have idt: "(software_uri c, SW ''software_id'', literal c) \<in> set G"
    using sub by (auto simp: software_triples_set c)
  have subj: "s = software_uri c" if "(s, SW ''software_id'', literal c) \<in> set G" for s
    using I [OF that] by auto
  have "{t \<in> set G. matches (None, Some (SW ''software_id''), Some (literal c)) t}
      = {(software_uri c, SW ''software_id'', literal c)}"
  proof (intro set_eqI iffI)
    fix t assume "t \<in> {t \<in> set G. matches (None, Some (SW ''software_id''), Some (literal c)) t}"
    then have t: "t \<in> set G" "fst (snd t) = SW ''software_id''" "snd (snd t) = literal c" by auto
    from I [OF t(1,2)] t(3) show "t \<in> {(software_uri c, SW ''software_id'', literal c)}" by auto
  next
    fix t assume "t \<in> {(software_uri c, SW ''software_id'', literal c)}"
    with idt show "t \<in> {t \<in> set G. matches (None, Some (SW ''software_id''), Some (literal c)) t}"
      by simp
  qed
  note f1 = filter_single [OF d this]
  show "subjects G (SW ''software_id'') (literal c) = [software_uri c]"
    by (simp add: subjects_def triples_def f1)
  have "{t \<in> set G. fst (snd t) = RDF_type \<and> snd (snd t) = SW ''Software''
            \<and> (fst t, SW ''software_id'', literal c) \<in> set G}
      = {(software_uri c, RDF_type, SW ''Software'')}"
  proof (intro set_eqI iffI)
    fix t assume "t \<in> {t \<in> set G. fst (snd t) = RDF_type \<and> snd (snd t) = SW ''Software''
            \<and> (fst t, SW ''software_id'', literal c) \<in> set G}"
    then have t: "fst (snd t) = RDF_type" "snd (snd t) = SW ''Software''"
        "(fst t, SW ''software_id'', literal c) \<in> set G" by auto
    from subj [OF t(3)] t(1,2) show "t \<in> {(software_uri c, RDF_type, SW ''Software'')}"
      by (simp add: prod_eq_iff)
  next
    fix t assume "t \<in> {(software_uri c, RDF_type, SW ''Software'')}"
    with ty idt show "t \<in> {t \<in> set G. fst (snd t) = RDF_type \<and> snd (snd t) = SW ''Software''
            \<and> (fst t, SW ''software_id'', literal c) \<in> set G}"
      by simp
  qed
  note f2 = filter_single [OF d this]
  show "filter (\<lambda>s. (s, SW ''software_id'', literal c) \<in> set G) (subjects G RDF_type (SW ''Software''))
         = [software_uri c]"
    by (simp add: subjects_def triples_def filter_map o_def f2)
  have "{t \<in> set G. matches (Some (software_uri c), Some (SW ''name''), None) t}
      = {t \<in> set (software_triples r). fst (snd t) = SW ''name''}"
    by (rule slice_pred [OF S]) simp
  also have "\<dots> = {(software_uri c, SW ''name'', literal (name_of r))}"
    by (auto simp: software_triples_set c)
  finally have "{t \<in> set G. matches (Some (software_uri c), Some (SW ''name''), None) t}
      = {(software_uri c, SW ''name'', literal (name_of r))}" .
  note f3 = filter_single [OF d this]
  have pg: "{t \<in> set G. matches (Some (software_uri c), Some (SW ''pagina''), None) t}
      = {t \<in> set (software_triples r). fst (snd t) = SW ''pagina''}"
    by (rule slice_pred [OF S]) simp
  show "triples G (Some (software_uri c), Some (SW ''name''), None)
         = [(software_uri c, SW ''name'', literal (name_of r))]"
    unfolding triples_def by (rule f3)
  show "triples G (Some (software_uri c), Some (SW ''pagina''), None)
         = (if truthy (cell_of r ''pagina'')
            then [(software_uri c, SW ''pagina'', literal (cell_of r ''pagina''))] else [])"
  proof (cases "truthy (cell_of r ''pagina'')")
    case True
    have "{t \<in> set G. matches (Some (software_uri c), Some (SW ''pagina''), None) t}
        = {(software_uri c, SW ''pagina'', literal (cell_of r ''pagina''))}"
      unfolding pg using True by (auto simp: software_triples_set c)
    note f4 = filter_single [OF d this]
    show ?thesis unfolding triples_def by (simp add: True f4)
  next
    case False
    have "{t \<in> set G. matches (Some (software_uri c), Some (SW ''pagina''), None) t} = {}"
      unfolding pg using False by (auto simp: software_triples_set c)
    note f5 = filter_none [OF this]
    show ?thesis unfolding triples_def by (simp add: False f5)
  qed
qed

lemma get_or_create_software_present:
  "(software_uri d, RDF_type, SW ''Software'') \<in> set (graph st) \<Longrightarrow>
     get_or_create_software d nm pg st = (Inr (software_uri d), st)"
  by (simp add: get_or_create_software_def software_uri_def Let_def)

lemma get_or_create_software_eq:
  "get_or_create_software d nm pg st =
     (Inr (software_uri d),
      if (software_uri d, RDF_type, SW ''Software'') \<in> set (graph st) then st
      else st\<lparr>graph := add_all
             ([(software_uri d, RDF_type, SW ''Software''),
               (software_uri d, SW ''software_id'', literal d),
               (software_uri d, SW ''name'', literal nm)]
              @ (if truthy pg then [(software_uri d, SW ''pagina'', literal pg)] else []))
             (graph st)\<rparr>)"
  by (simp add: get_or_create_software_def software_uri_def Let_def)

text \<open>
  C1. Take any input and any \<^verbatim>\<open>software_id\<close> value in it, and let \<open>r\<close> be the first
  row that carries it (\<open>pre\<close> are the rows before, none with an identifier of the same
  text; \<open>post\<close> are the rows after, which may repeat it with any name and page). In the
  final graph exactly one subject has that \<^verbatim>\<open>software_id\<close>, namely
  \<^verbatim>\<open>software_<id>\<close>, and it is the one subject typed Software that has it; its only
  \<^verbatim>\<open>name\<close> triple is the name of row \<open>r\<close>, and its only \<^verbatim>\<open>pagina\<close> triple is the
  page of row \<open>r\<close>, absent when that cell is empty or missing. In
  \<^verbatim>\<open>_get_or_create_software\<close> itself, a call for an identifier whose type triple
  is already in the graph returns the URI and leaves the populator as it was, whatever
  name and page are passed; otherwise it adds the type, identifier and name triples and,
  for a non-empty page, the page triple.
\<close>

theorem C1_one_software_per_id:
  assumes "r ''software_id'' = Some c"
    and "\<forall>p\<in>set pre. \<forall>d. p ''software_id'' = Some d \<longrightarrow> py_str d \<noteq> py_str c"
  shows "subjects (graph (fst (process_csv e (pre @ r # post)))) (SW ''software_id'') (literal c)
           = [software_uri c]
    \<and> filter (\<lambda>s. (s, SW ''software_id'', literal c) \<in> set (graph (fst (process_csv e (pre @ r # post)))))
         (subjects (graph (fst (process_csv e (pre @ r # post)))) RDF_type (SW ''Software''))
           = [software_uri c]
    \<and> triples (graph (fst (process_csv e (pre @ r # post))))
         (Some (software_uri c), Some (SW ''name''), None)
           = [(software_uri c, SW ''name'', literal (name_of r))]
    \<and> triples (graph (fst (process_csv e (pre @ r # post))))
         (Some (software_uri c), Some (SW ''pagina''), None)
           = (if truthy (cell_of r ''pagina'')
              then [(software_uri c, SW ''pagina'', literal (cell_of r ''pagina''))] else [])
    \<and> (\<forall>d nm pg st. get_or_create_software d nm pg st =
          (Inr (software_uri d),
           if (software_uri d, RDF_type, SW ''Software'') \<in> set (graph st) then st
           else st\<lparr>graph := add_all
                  ([(software_uri d, RDF_type, SW ''Software''),
                    (software_uri d, SW ''software_id'', literal d),
                    (software_uri d, SW ''name'', literal nm)]
                   @ (if truthy pg then [(software_uri d, SW ''pagina'', literal pg)] else []))
                  (graph st)\<rparr>))"
  using software_id_subject [where r = r and c = c and pre = pre and e = e and post = post, OF assms]
    software_typed_once [where r = r and c = c and pre = pre and e = e and post = post, OF assms]
    software_name [where r = r and c = c and pre = pre and e = e and post = post, OF assms]
    software_pagina [where r = r and c = c and pre = pre and e = e and post = post, OF assms]
    get_or_create_software_eq
  by (intro conjI allI)

theorem C1_witness:
  "software_row ''7'' ''Tool A'' ''http://a'' ''software_id'' = Some (PyStr ''7'')
   \<and> full_row ''8'' ''2024-01-15'' ''software_id'' = Some (PyStr ''8'')
   \<and> py_str (PyStr ''8'') \<noteq> py_str (PyStr ''7'')
   \<and> subjects (graph (fst (process_csv (clock (Date 2026 11 4))
         ([full_row ''8'' ''2024-01-15''] @ software_row ''7'' ''Tool A'' ''http://a''
            # [software_row ''7'' ''Tool B'' ''http://b'']))))
       (SW ''software_id'') (literal (PyStr ''7'')) = [software_uri (PyStr ''7'')]
   \<and> triples (graph (fst (process_csv (clock (Date 2026 11 4))
         ([full_row ''8'' ''2024-01-15''] @ software_row ''7'' ''Tool A'' ''http://a''
            # [software_row ''7'' ''Tool B'' ''http://b'']))))
       (Some (software_uri (PyStr ''7'')), Some (SW ''name''), None)
       = [(software_uri (PyStr ''7''), SW ''name'', Literal ''Tool A'')]
   \<and> triples (graph (fst (process_csv (clock (Date 2026 11 4))
         ([full_row ''8'' ''2024-01-15''] @ software_row ''7'' ''Tool A'' ''http://a''
            # [software_row ''7'' ''Tool B'' ''http://b'']))))
       (Some (software_uri (PyStr ''7'')), Some (SW ''pagina''), None)
       = [(software_uri (PyStr ''7''), SW ''pagina'', Literal ''http://a'')]"
proof -
  have h1: "software_row ''7'' ''Tool A'' ''http://a'' ''software_id'' = Some (PyStr ''7'')"
    by (simp add: software_row_def)
  have h0: "full_row ''8'' ''2024-01-15'' ''software_id'' = Some (PyStr ''8'')"
    by (simp add: full_row_def)
  have h2: "\<forall>p\<in>set [full_row ''8'' ''2024-01-15''].
      \<forall>d. p ''software_id'' = Some d \<longrightarrow> py_str d \<noteq> py_str (PyStr ''7'')"
    by (simp add: h0)
  have n: "name_of (software_row ''7'' ''Tool A'' ''http://a'') = PyStr ''Tool A''"
    by (simp add: name_of_def row_get_def software_row_def)
  have p: "cell_of (software_row ''7'' ''Tool A'' ''http://a'') ''pagina'' = PyStr ''http://a''"
    by (simp add: cell_of_def row_get_def software_row_def)
  note th = C1_one_software_per_id [where r = "software_row ''7'' ''Tool A'' ''http://a''"
      and c = "PyStr ''7''" and pre = "[full_row ''8'' ''2024-01-15'']"
      and e = "clock (Date 2026 11 4)" and post = "[software_row ''7'' ''Tool B'' ''http://b'']",
      OF h1 h2]
  from th have a: "subjects (graph (fst (process_csv (clock (Date 2026 11 4))
         ([full_row ''8'' ''2024-01-15''] @ software_row ''7'' ''Tool A'' ''http://a''
            # [software_row ''7'' ''Tool B'' ''http://b'']))))
       (SW ''software_id'') (literal (PyStr ''7'')) = [software_uri (PyStr ''7'')]"
    by (elim conjE)
  from th have b: "triples (graph (fst (process_csv (clock (Date 2026 11 4))
         ([full_row ''8'' ''2024-01-15''] @ software_row ''7'' ''Tool A'' ''http://a''
            # [software_row ''7'' ''Tool B'' ''http://b'']))))
       (Some (software_uri (PyStr ''7'')), Some (SW ''name''), None)
       = [(software_uri (PyStr ''7''), SW ''name'', Literal ''Tool A'')]"
    unfolding n literal_def py_str.simps by (elim conjE)
  from th have c: "triples (graph (fst (process_csv (clock (Date 2026 11 4))
         ([full_row ''8'' ''2024-01-15''] @ software_row ''7'' ''Tool A'' ''http://a''
            # [software_row ''7'' ''Tool B'' ''http://b'']))))
       (Some (software_uri (PyStr ''7'')), Some (SW ''pagina''), None)
       = [(software_uri (PyStr ''7''), SW ''pagina'', Literal ''http://a'')]"
    unfolding p literal_def py_str.simps by (elim conjE) simp
  from h1 h0 a b c show ?thesis by simp
qed

lemma cache_after_mono:
  "map_of (reviewer_cache s) k = Some u \<Longrightarrow> map_of (cache_after r s) k = Some u"
  by (auto simp: cache_after_def)

lemma cache_mono_run:
  assumes "map_of (reviewer_cache s) k = Some u"
  shows "map_of (reviewer_cache (run_rows e n rows s)) k = Some u"
  using run_rows_inv [where P = "\<lambda>_ s'. map_of (reviewer_cache s') k = Some u" and e = e
      and rows = rows and n = n and st = s] assms
  by (simp add: step_cache cache_after_mono)

lemma graph_mono_run: "set (graph s) \<subseteq> set (graph (run_rows e n rows s))"
proof -
  have "set (graph s) \<subseteq> set (graph (snd (process_row e m r s')))"
    if "set (graph s) \<subseteq> set (graph s')" for m r s'
    using that step_mono [of s' e m r] by blast
  from run_rows_inv [where P = "\<lambda>_ s'. set (graph s) \<subseteq> set (graph s')" and e = e
      and rows = rows and n = n and st = s, OF _ this]
  show ?thesis by simp
qed

lemma cache_after_key:
  assumes "r ''software_id'' \<noteq> None" "reviewer_ok r"
  shows "map_of (cache_after r s) (key_of r) = Some (reviewer_for s (key_of r))"
  using assms by (cases "map_of (reviewer_cache s) (key_of r)")
    (simp_all add: cache_after_def reviewer_for_def map_add_def)

lemma cache_typed_init: "cache_typed init"
  by (simp add: cache_typed_def init_def)

lemma reviewer_triples_type: "(u, RDF_type, SW ''Reviewer'') \<in> set (reviewer_triples u k)"
  by (cases k rule: prod_cases4) (simp add: reviewer_triples_def)

lemma cache_typed_step:
  assumes "cache_typed s"
  shows "cache_typed (snd (process_row e m r s))"
  unfolding cache_typed_def
proof (intro allI impI)
  fix k u assume "map_of (reviewer_cache (snd (process_row e m r s))) k = Some u"
  then have c: "map_of (cache_after r s) k = Some u" by (simp add: step_cache)
  show "(u, RDF_type, SW ''Reviewer'') \<in> set (graph (snd (process_row e m r s)))"
  proof (cases "map_of (reviewer_cache s) k = Some u")
    case True
    with assms have "(u, RDF_type, SW ''Reviewer'') \<in> set (graph s)"
      unfolding cache_typed_def by blast
    with step_mono [of s e m r] show ?thesis by blast
  next
    case False
    with c have cond: "r ''software_id'' \<noteq> None" "reviewer_ok r"
        "map_of (reviewer_cache s) (key_of r) = None"
      by (auto simp: cache_after_def split: if_splits)
    with c False have ku: "k = key_of r" "u = reviewer_for s (key_of r)"
      by (auto simp: cache_after_def split: if_splits)
    have "reviewer_part r s = reviewer_triples u (key_of r)"
      using cond(3) ku(2) by (simp add: reviewer_part_def)
    with step_reviewer [OF cond(1,2), of s e m] reviewer_triples_type [of u "key_of r"]
    show ?thesis by auto
  qed
qed

lemma cache_typed_run: "cache_typed (run_rows e 1 rows init)"
  using run_rows_inv [where P = "\<lambda>_ s. cache_typed s" and e = e and rows = rows and n = 1 and st = init]
  by (simp add: cache_typed_init cache_typed_step)

lemma reviewer_shared:
  fixes pre r1 mid r2 post e
  defines "st1 \<equiv> fst (process_csv e pre)"
  defines "st2 \<equiv> fst (process_csv e (pre @ r1 # mid))"
  defines "G \<equiv> graph (fst (process_csv e (pre @ r1 # mid @ r2 # post)))"
  assumes r1: "r1 ''software_id'' \<noteq> None" "reviewer_ok r1"
    and k: "key_of r1 = key_of r2"
  shows reviewer_hit: "map_of (reviewer_cache st2) (key_of r2) = Some (reviewer_for st1 (key_of r1))"
    and reviewer_same: "reviewer_for st2 (key_of r2) = reviewer_for st1 (key_of r1)"
    and reviewer_typed: "(reviewer_for st1 (key_of r1), RDF_type, SW ''Reviewer'') \<in> set G"
proof -
  define s1 where "s1 = snd (process_row e (Suc (length pre)) r1 (run_rows e 1 pre init))"
  have st2: "st2 = run_rows e (Suc (Suc (length pre))) mid s1"
    unfolding st2_def s1_def by (simp only: process_csv_run run_split)
  have G: "G = graph (run_rows e (Suc (Suc (length pre))) (mid @ r2 # post) s1)"
    unfolding G_def s1_def by (simp only: process_csv_run run_split)
  have c1: "map_of (reviewer_cache s1) (key_of r1) = Some (reviewer_for st1 (key_of r1))"
    unfolding s1_def st1_def by (simp only: step_cache cache_after_key [OF r1] process_csv_run)
  from cache_mono_run [OF c1] show hit: "map_of (reviewer_cache st2) (key_of r2) = Some (reviewer_for st1 (key_of r1))"
    unfolding st2 k .
  then show "reviewer_for st2 (key_of r2) = reviewer_for st1 (key_of r1)"
    by (simp add: reviewer_for_def)
  have "cache_typed s1"
    unfolding s1_def by (rule cache_typed_step) (rule cache_typed_run)
  with c1 have "(reviewer_for st1 (key_of r1), RDF_type, SW ''Reviewer'') \<in> set (graph s1)"
    unfolding cache_typed_def by blast
  with graph_mono_run [of s1 e "Suc (Suc (length pre))" "mid @ r2 # post"]
  show "(reviewer_for st1 (key_of r1), RDF_type, SW ''Reviewer'') \<in> set G"
    unfolding G by blast
qed

lemma process_reviewer_hit:
  assumes "reviewer_ok r" "map_of (reviewer_cache st) (key_of r) = Some u"
  shows "process_reviewer r st = (Inr u, st)"
  unfolding process_reviewer_ok [OF assms(1)]
  by (simp add: assms(2) reviewer_for_def reviewer_part_def)

lemma process_software_cache:
  "reviewer_cache (snd (process_software r st)) = reviewer_cache st"
  by (cases "r ''software_id''") (simp_all add: process_software_None process_software_Some)

lemma get_or_create_reviewer_hit:
  "map_of (reviewer_cache st) (a, b, c, d) = Some v \<Longrightarrow>
     get_or_create_reviewer a b c d st = (Inr v, st)"
  by (simp add: get_or_create_reviewer_def)

lemma get_or_create_reviewer_miss:
  "map_of (reviewer_cache st) (a, b, c, d) = None \<Longrightarrow>
     get_or_create_reviewer a b c d st =
       (Inr (SW (''reviewer_'' @ str_nat (length (reviewer_cache st) + 1))),
        st\<lparr>graph := add_all
             [(SW (''reviewer_'' @ str_nat (length (reviewer_cache st) + 1)), RDF_type, SW ''Reviewer''),
              (SW (''reviewer_'' @ str_nat (length (reviewer_cache st) + 1)), SW ''setor'', literal a),
              (SW (''reviewer_'' @ str_nat (length (reviewer_cache st) + 1)), SW ''porte'', literal b),
              (SW (''reviewer_'' @ str_nat (length (reviewer_cache st) + 1)), SW ''frequencia'', literal c),
              (SW (''reviewer_'' @ str_nat (length (reviewer_cache st) + 1)),
               SW ''frequencia_complementar'', literal d)]
             (graph st),
           reviewer_cache := reviewer_cache st
             @ [((a, b, c, d), SW (''reviewer_'' @ str_nat (length (reviewer_cache st) + 1)))]\<rparr>)"
  by (simp add: get_or_create_reviewer_def Let_def)

lemma software_row_ok: "row_ok (software_row sid nm pg)"
  by (simp add: row_ok_def reviewer_ok_def review_ok_def date_ok_def software_row_def)

lemma typed_subject: "(u, p, ob) \<in> set g \<Longrightarrow> u \<in> set (subjects g p ob)"
  by (force simp: subjects_def triples_def)

lemma made_by_shared:
  fixes pre r1 mid r2 post e
  defines "G \<equiv> graph (fst (process_csv e (pre @ r1 # mid @ r2 # post)))"
  defines "u \<equiv> reviewer_for (fst (process_csv e pre)) (key_of r1)"
  assumes ok1: "row_ok r1" and ok2: "row_ok r2" and k: "key_of r1 = key_of r2"
  shows made_by_first:
      "triples G (Some (review_uri (Suc (length pre))), Some (SW ''madeBy''), None)
         = [(review_uri (Suc (length pre)), SW ''madeBy'', u)]"
    and made_by_second:
      "triples G (Some (review_uri (length pre + length mid + 2)), Some (SW ''madeBy''), None)
         = [(review_uri (length pre + length mid + 2), SW ''madeBy'', u)]"
    and made_by_typed: "u \<in> set (subjects G RDF_type (SW ''Reviewer''))"
    and made_by_lookup:
      "process_reviewer r2 (snd (process_software r2 (fst (process_csv e (pre @ r1 # mid)))))
         = (Inr u, snd (process_software r2 (fst (process_csv e (pre @ r1 # mid)))))"
proof -
  from ok1 have r1: "r1 ''software_id'' \<noteq> None" "reviewer_ok r1" by (simp_all add: row_ok_def)
  from ok2 have r2: "reviewer_ok r2" by (simp add: row_ok_def)
  note hit = reviewer_hit [where ?r1.0 = r1 and ?r2.0 = r2 and pre = pre and mid = mid and e = e,
      OF r1 k]
  note same = reviewer_same [where ?r1.0 = r1 and ?r2.0 = r2 and pre = pre and mid = mid and e = e,
      OF r1 k]
  note typed = reviewer_typed [where ?r1.0 = r1 and ?r2.0 = r2 and pre = pre and mid = mid and e = e
      and post = post, OF r1 k]
  have d: "distinct G" unfolding G_def by (rule distinct_final)
  have s1: "{t \<in> set G. about (Suc (length pre)) t}
      = set (review_attrs e (Suc (length pre)) r1)
        \<union> set (links (Suc (length pre)) r1 (fst (process_csv e pre)))"
    unfolding G_def process_csv_run
    by (rule about_slice_ok [where r = r1 and pre = pre and e = e and post = "mid @ r2 # post", OF ok1])
  from slice_lists(2) [OF d s1]
  show "triples G (Some (review_uri (Suc (length pre))), Some (SW ''madeBy''), None)
         = [(review_uri (Suc (length pre)), SW ''madeBy'', u)]"
    unfolding u_def .
  have l: "pre @ r1 # mid @ r2 # post = (pre @ r1 # mid) @ r2 # post" by simp
  have n: "length pre + length mid + 2 = Suc (length (pre @ r1 # mid))" by simp
  have s2: "{t \<in> set G. about (length pre + length mid + 2) t}
      = set (review_attrs e (length pre + length mid + 2) r2)
        \<union> set (links (length pre + length mid + 2) r2 (fst (process_csv e (pre @ r1 # mid))))"
    unfolding G_def process_csv_run l n
    by (rule about_slice_ok [where r = r2 and pre = "pre @ r1 # mid" and e = e and post = post, OF ok2])
  from slice_lists(2) [OF d s2]
  show "triples G (Some (review_uri (length pre + length mid + 2)), Some (SW ''madeBy''), None)
         = [(review_uri (length pre + length mid + 2), SW ''madeBy'', u)]"
    unfolding u_def same .
  from typed show "u \<in> set (subjects G RDF_type (SW ''Reviewer''))"
    unfolding u_def G_def by (rule typed_subject)
  have "map_of (reviewer_cache (snd (process_software r2 (fst (process_csv e (pre @ r1 # mid))))))
          (key_of r2) = Some u"
    unfolding process_software_cache u_def by (rule hit)
  from process_reviewer_hit [OF r2 this]
  show "process_reviewer r2 (snd (process_software r2 (fst (process_csv e (pre @ r1 # mid)))))
         = (Inr u, snd (process_software r2 (fst (process_csv e (pre @ r1 # mid)))))" .
qed

lemma key_of_eq:
  assumes "r1 ''setor'' = r2 ''setor''" "r1 ''porte'' = r2 ''porte''"
    "r1 ''frequencia'' = r2 ''frequencia''"
    "r1 ''frequencia_complementar'' = r2 ''frequencia_complementar''"
  shows "key_of r1 = key_of r2"
  by (simp add: key_of_def cell_of_def row_get_def assms)

text \<open>
  C2. Take two rows of one input, processed without error, whose \<^verbatim>\<open>setor\<close>,
  \<^verbatim>\<open>porte\<close>, \<^verbatim>\<open>frequencia\<close> and \<^verbatim>\<open>frequencia_complementar\<close> cells are equal
  (\<open>pre\<close>, \<open>mid\<close> and \<open>post\<close> are the rows before, between and after them). There is one
  node, typed Reviewer in the final graph, such that the Review of each of the two rows
  has exactly one \<^verbatim>\<open>madeBy\<close> triple and that triple points to this node; when the
  second row is processed, its lookup returns this node and leaves the populator as it
  was. In \<^verbatim>\<open>_get_or_create_reviewer\<close> itself, a tuple that is in the cache returns
  the cached URI with the populator unchanged, and a tuple that is not mints
  \<^verbatim>\<open>reviewer_<n>\<close>, where \<open>n\<close> is the size of the cache plus one, adds its five
  triples and records it in the cache.
\<close>

theorem C2_same_tuple_same_reviewer:
  assumes "row_ok r1" and "row_ok r2"
    and "r1 ''setor'' = r2 ''setor''" and "r1 ''porte'' = r2 ''porte''"
    and "r1 ''frequencia'' = r2 ''frequencia''"
    and "r1 ''frequencia_complementar'' = r2 ''frequencia_complementar''"
  shows "(\<exists>u. u \<in> set (subjects (graph (fst (process_csv e (pre @ r1 # mid @ r2 # post))))
                     RDF_type (SW ''Reviewer''))
        \<and> triples (graph (fst (process_csv e (pre @ r1 # mid @ r2 # post))))
             (Some (review_uri (Suc (length pre))), Some (SW ''madeBy''), None)
            = [(review_uri (Suc (length pre)), SW ''madeBy'', u)]
        \<and> triples (graph (fst (process_csv e (pre @ r1 # mid @ r2 # post))))
             (Some (review_uri (length pre + length mid + 2)), Some (SW ''madeBy''), None)
            = [(review_uri (length pre + length mid + 2), SW ''madeBy'', u)]
        \<and> process_reviewer r2 (snd (process_software r2 (fst (process_csv e (pre @ r1 # mid)))))
            = (Inr u, snd (process_software r2 (fst (process_csv e (pre @ r1 # mid))))))
    \<and> (\<forall>a b c d st v. map_of (reviewer_cache st) (a, b, c, d) = Some v \<longrightarrow>
          get_or_create_reviewer a b c d st = (Inr v, st))
    \<and> (\<forall>a b c d st. map_of (reviewer_cache st) (a, b, c, d) = None \<longrightarrow>
          get_or_create_reviewer a b c d st =
            (Inr (SW (''reviewer_'' @ str_nat (length (reviewer_cache st) + 1))),
             st\<lparr>graph := add_all
                  [(SW (''reviewer_'' @ str_nat (length (reviewer_cache st) + 1)), RDF_type, SW ''Reviewer''),
                   (SW (''reviewer_'' @ str_nat (length (reviewer_cache st) + 1)), SW ''setor'', literal a),
                   (SW (''reviewer_'' @ str_nat (length (reviewer_cache st) + 1)), SW ''porte'', literal b),
                   (SW (''reviewer_'' @ str_nat (length (reviewer_cache st) + 1)), SW ''frequencia'', literal c),
                   (SW (''reviewer_'' @ str_nat (length (reviewer_cache st) + 1)),
                    SW ''frequencia_complementar'', literal d)]
                  (graph st),
                reviewer_cache := reviewer_cache st
                  @ [((a, b, c, d), SW (''reviewer_'' @ str_nat (length (reviewer_cache st) + 1)))]\<rparr>))"
proof -
  have k: "key_of r1 = key_of r2" using assms(3-6) by (rule key_of_eq)
  note f = made_by_typed [where ?r1.0 = r1 and ?r2.0 = r2 and pre = pre and mid = mid and e = e
        and post = post, OF assms(1,2) k]
    made_by_first [where ?r1.0 = r1 and ?r2.0 = r2 and pre = pre and mid = mid and e = e
        and post = post, OF assms(1,2) k]
    made_by_second [where ?r1.0 = r1 and ?r2.0 = r2 and pre = pre and mid = mid and e = e
        and post = post, OF assms(1,2) k]
    made_by_lookup [where ?r1.0 = r1 and ?r2.0 = r2 and pre = pre and mid = mid and e = e,
        OF assms(1,2) k]
  show ?thesis
    by (intro conjI exI [of _ "reviewer_for (fst (process_csv e pre)) (key_of r1)"] allI impI f)
       (erule get_or_create_reviewer_hit get_or_create_reviewer_miss)+
qed

theorem C2_witness:
  "row_ok (software_row ''7'' ''Tool A'' ''http://a'')
   \<and> row_ok (software_row ''8'' ''Tool B'' ''http://b'')
   \<and> software_row ''7'' ''Tool A'' ''http://a'' ''setor''
       = software_row ''8'' ''Tool B'' ''http://b'' ''setor''
   \<and> software_row ''7'' ''Tool A'' ''http://a'' ''porte''
       = software_row ''8'' ''Tool B'' ''http://b'' ''porte''
   \<and> software_row ''7'' ''Tool A'' ''http://a'' ''frequencia''
       = software_row ''8'' ''Tool B'' ''http://b'' ''frequencia''
   \<and> software_row ''7'' ''Tool A'' ''http://a'' ''frequencia_complementar''
       = software_row ''8'' ''Tool B'' ''http://b'' ''frequencia_complementar''
   \<and> (\<exists>u. triples (graph (fst (process_csv (clock (Date 2026 11 4))
               [software_row ''7'' ''Tool A'' ''http://a'',
                software_row ''8'' ''Tool B'' ''http://b''])))
             (Some (review_uri 1), Some (SW ''madeBy''), None)
            = [(review_uri 1, SW ''madeBy'', u)]
        \<and> triples (graph (fst (process_csv (clock (Date 2026 11 4))
               [software_row ''7'' ''Tool A'' ''http://a'',
                software_row ''8'' ''Tool B'' ''http://b''])))
             (Some (review_uri 2), Some (SW ''madeBy''), None)
            = [(review_uri 2, SW ''madeBy'', u)])
   \<and> map_of (reviewer_cache init) (PyStr ''TI'', PyStr ''grande'', PyStr ''diaria'', PyStr '''') = None
   \<and> fst (get_or_create_reviewer (PyStr ''TI'') (PyStr ''grande'') (PyStr ''diaria'') (PyStr '''') init)
       = Inr (SW (''reviewer_'' @ str_nat 1))"
proof -
  have h1: "row_ok (software_row ''7'' ''Tool A'' ''http://a'')"
    and h2: "row_ok (software_row ''8'' ''Tool B'' ''http://b'')"
    by (rule software_row_ok)+
  have h3: "software_row ''7'' ''Tool A'' ''http://a'' ''setor''
       = software_row ''8'' ''Tool B'' ''http://b'' ''setor''"
    and h4: "software_row ''7'' ''Tool A'' ''http://a'' ''porte''
       = software_row ''8'' ''Tool B'' ''http://b'' ''porte''"
    and h5: "software_row ''7'' ''Tool A'' ''http://a'' ''frequencia''
       = software_row ''8'' ''Tool B'' ''http://b'' ''frequencia''"
    and h6: "software_row ''7'' ''Tool A'' ''http://a'' ''frequencia_complementar''
       = software_row ''8'' ''Tool B'' ''http://b'' ''frequencia_complementar''"
    by (simp_all add: software_row_def)
  have h7: "map_of (reviewer_cache init) (PyStr ''TI'', PyStr ''grande'', PyStr ''diaria'', PyStr '''') = None"
    by (simp add: init_def)
  note th = C2_same_tuple_same_reviewer [where ?r1.0 = "software_row ''7'' ''Tool A'' ''http://a''"
      and ?r2.0 = "software_row ''8'' ''Tool B'' ''http://b''" and pre = "[]" and mid = "[]"
      and post = "[]" and e = "clock (Date 2026 11 4)", OF h1 h2 h3 h4 h5 h6]
  from th obtain u where
    "triples (graph (fst (process_csv (clock (Date 2026 11 4))
               ([] @ software_row ''7'' ''Tool A'' ''http://a'' # [] @
                 software_row ''8'' ''Tool B'' ''http://b'' # []))))
             (Some (review_uri (Suc (length ([] :: row list)))), Some (SW ''madeBy''), None)
            = [(review_uri (Suc (length ([] :: row list))), SW ''madeBy'', u)]"
    "triples (graph (fst (process_csv (clock (Date 2026 11 4))
               ([] @ software_row ''7'' ''Tool A'' ''http://a'' # [] @
                 software_row ''8'' ''Tool B'' ''http://b'' # []))))
             (Some (review_uri (length ([] :: row list) + length ([] :: row list) + 2)),
              Some (SW ''madeBy''), None)
            = [(review_uri (length ([] :: row list) + length ([] :: row list) + 2), SW ''madeBy'', u)]"
    by (elim conjE exE)
  then have a: "\<exists>u. triples (graph (fst (process_csv (clock (Date 2026 11 4))
               [software_row ''7'' ''Tool A'' ''http://a'',
                software_row ''8'' ''Tool B'' ''http://b''])))
             (Some (review_uri 1), Some (SW ''madeBy''), None)
            = [(review_uri 1, SW ''madeBy'', u)]
        \<and> triples (graph (fst (process_csv (clock (Date 2026 11 4))
               [software_row ''7'' ''Tool A'' ''http://a'',
                software_row ''8'' ''Tool B'' ''http://b''])))
             (Some (review_uri 2), Some (SW ''madeBy''), None)
            = [(review_uri 2, SW ''madeBy'', u)]"
    by (intro exI [of _ u]) (simp add: numeral_2_eq_2)
  from th have "\<forall>a b c d st. map_of (reviewer_cache st) (a, b, c, d) = None \<longrightarrow>
          fst (get_or_create_reviewer a b c d st) =
            Inr (SW (''reviewer_'' @ str_nat (length (reviewer_cache st) + 1)))"
    by (elim conjE) simp
  from this [rule_format, OF h7]
  have b: "fst (get_or_create_reviewer (PyStr ''TI'') (PyStr ''grande'') (PyStr ''diaria'') (PyStr '''') init)
       = Inr (SW (''reviewer_'' @ str_nat 1))"
    by (simp add: init_def)
  from h1 h2 h3 h4 h5 h6 a h7 b show ?thesis by (intro conjI)
qed

end
